theory Spec2Isabelle
  imports Complex_Main "HOL-Library.Sublist" "HOL-Library.Char_ord" "HOL-Library.List_Lexorder"
    "HOL-Library.Product_Lexorder"
begin

section \<open>Errors\<close>

text \<open>
  The exceptions of \<^verbatim>\<open>gdls/core.py\<close> (\<^verbatim>\<open>DriveError\<close> and its subclasses) and the
  built-in exceptions the modelled code can raise. \<^verbatim>\<open>DrivePathNotFoundError\<close> and
  \<^verbatim>\<open>DriveError\<close> carry their message.
\<close>

datatype error =
    ValueError
  | TypeError
  | DriveError string
  | DriveCacheError
  | DrivePathNotFoundError string

section \<open>The remote listing used by the size calculation\<close>

text \<open>
  One entry of a \<^verbatim>\<open>files().list\<close> response requested with
  \<^verbatim>\<open>fields="nextPageToken, files(id, mimeType, size)"\<close>. The keys \<^verbatim>\<open>mimeType\<close> and
  \<^verbatim>\<open>size\<close> may be absent; \<^verbatim>\<open>size\<close> is the decimal string the API sends, read by
  \<^verbatim>\<open>int(item['size'])\<close>.
\<close>

record api_file =
  f_id :: string
  f_mimeType :: "string option"
  f_size :: "int option"

text \<open>
  What \<^verbatim>\<open>.execute()\<close> gives for one page request: it raises \<^verbatim>\<open>HttpError\<close> (with
  the text of the error), or it returns the files of the page and, when a \<^verbatim>\<open>nextPageToken\<close> is present, the token
  leads to the next response.
\<close>

datatype 'a listing =
    HttpFailure string
  | Page "'a list" "'a listing option"

text \<open>
  The remote store as the size calculation sees it: for each known folder identifier, the
  response to the query \<^verbatim>\<open>'<id>' in parents and trashed=false\<close>. An identifier the
  store does not know is answered by an error.
\<close>

type_synonym drive = "(string \<times> api_file listing) list"

definition list_children :: "drive \<Rightarrow> string \<Rightarrow> api_file listing" where
  "list_children d folder_id =
     (case map_of d folder_id of None \<Rightarrow> HttpFailure ''File not found'' | Some l \<Rightarrow> l)"

definition folder_mime :: string where
  "folder_mime = ''application/vnd.google-apps.folder''"

section \<open>The recursive size calculation\<close>

text \<open>
  The body of \<^verbatim>\<open>for item in items\<close> in \<^verbatim>\<open>_recursive_folder_size\<close>: an entry with a
  \<^verbatim>\<open>size\<close> key adds its size; otherwise a folder adds the result of the recursive
  call; anything else adds nothing.
\<close>

fun item_loop :: "(api_file \<Rightarrow> int) \<Rightarrow> api_file list \<Rightarrow> int \<Rightarrow> int" where
  "item_loop descend [] total_size = total_size"
| "item_loop descend (item # items) total_size =
     item_loop descend items
       (case f_size item of
          Some s \<Rightarrow> total_size + s
        | None \<Rightarrow>
            if f_mimeType item = Some folder_mime then total_size + descend item
            else total_size)"

text \<open>
  The \<^verbatim>\<open>while True\<close> loop: a failed page request leaves the loop with the total so far;
  a page without \<^verbatim>\<open>nextPageToken\<close> ends it.
\<close>

fun page_loop :: "(api_file \<Rightarrow> int) \<Rightarrow> api_file listing \<Rightarrow> int \<Rightarrow> int" where
  "page_loop descend (HttpFailure msg) total_size = total_size"
| "page_loop descend (Page items None) total_size = item_loop descend items total_size"
| "page_loop descend (Page items (Some next_page)) total_size =
     page_loop descend next_page (item_loop descend items total_size)"

text \<open>The entries of the pages that the loop reaches, in the order it meets them.\<close>

fun fetched :: "'a listing \<Rightarrow> 'a list" where
  "fetched (HttpFailure msg) = []"
| "fetched (Page items None) = items"
| "fetched (Page items (Some next_page)) = items @ fetched next_page"

definition is_subfolder :: "api_file \<Rightarrow> bool" where
  "is_subfolder item \<longleftrightarrow> f_size item = None \<and> f_mimeType item = Some folder_mime"

lemma item_loop_cong:
  assumes "items = items'" "total_size = total_size'"
    and "\<And>item. item \<in> set items' \<Longrightarrow> is_subfolder item \<Longrightarrow> f item = g item"
  shows "item_loop f items total_size = item_loop g items' total_size'"
  unfolding assms(1,2) using assms(3)
  by (induction items' arbitrary: total_size')
     (auto simp: is_subfolder_def split: option.splits)

lemma page_loop_cong [fundef_cong]:
  assumes "l = l'" "total_size = total_size'"
    and "\<And>item. item \<in> set (fetched l') \<Longrightarrow> is_subfolder item \<Longrightarrow> f item = g item"
  shows "page_loop f l total_size = page_loop g l' total_size'"
  unfolding assms(1,2) using assms(3)
proof (induction l' arbitrary: total_size' rule: fetched.induct)
  case 1
  show ?case by simp
next
  case (2 items)
  have "item_loop f items total_size' = item_loop g items total_size'"
  proof (rule item_loop_cong)
    fix item assume "item \<in> set items" "is_subfolder item"
    then show "f item = g item" using 2 by simp
  qed (rule refl)+
  then show ?case by simp
next
  case (3 items next_page)
  have eq: "item_loop f items total_size' = item_loop g items total_size'"
  proof (rule item_loop_cong)
    fix item assume "item \<in> set items" "is_subfolder item"
    then show "f item = g item" using 3(2) by simp
  qed (rule refl)+
  have "page_loop f next_page (item_loop g items total_size') =
        page_loop g next_page (item_loop g items total_size')"
  proof (rule 3(1))
    fix item assume "item \<in> set (fetched next_page)" "is_subfolder item"
    then show "f item = g item" using 3(2) by simp
  qed
  then show ?case by (simp add: eq)
qed

text \<open>
  \<^verbatim>\<open>_recursive_folder_size\<close>. Every descent works on its own copy of the visited
  set, enlarged by the folder being listed.
\<close>

function recursive_folder_size :: "drive \<Rightarrow> string \<Rightarrow> string set \<Rightarrow> int" where
  "recursive_folder_size d folder_id visited =
     (if folder_id \<in> visited then 0
      else page_loop
             (\<lambda>item. recursive_folder_size d (f_id item) (insert folder_id visited))
             (list_children d folder_id) 0)"
  by pat_completeness auto

lemma list_children_known:
  "fetched (list_children d folder_id) \<noteq> [] \<Longrightarrow> folder_id \<in> fst ` set d"
proof -
  assume "fetched (list_children d folder_id) \<noteq> []"
  then obtain l where "map_of d folder_id = Some l"
    by (cases "map_of d folder_id") (auto simp: list_children_def)
  then have "(folder_id, l) \<in> set d" by (rule map_of_SomeD)
  then show ?thesis by force
qed

termination recursive_folder_size
proof (relation "measure (\<lambda>(d, folder_id, visited). card (fst ` set d - visited))")
  show "wf (measure (\<lambda>(d, folder_id, visited). card (fst ` set d - visited)))"
    by simp
next
  fix d :: drive and folder_id :: string and visited :: "string set" and item :: api_file
  assume fresh: "folder_id \<notin> visited"
    and item: "item \<in> set (fetched (list_children d folder_id))"
  from item have "fetched (list_children d folder_id) \<noteq> []"
    by auto
  then have "folder_id \<in> fst ` set d"
    by (rule list_children_known)
  with fresh have "fst ` set d - insert folder_id visited \<subset> fst ` set d - visited"
    by auto
  then have "card (fst ` set d - insert folder_id visited) < card (fst ` set d - visited)"
    by (intro psubset_card_mono) auto
  then show "((d, f_id item, insert folder_id visited), (d, folder_id, visited))
      \<in> measure (\<lambda>(d, folder_id, visited). card (fst ` set d - visited))"
    by simp
qed

declare recursive_folder_size.simps [simp del]

section \<open>The cache\<close>

text \<open>
  \<^verbatim>\<open>gdls/cache.py\<close>. The dictionary \<^verbatim>\<open>_cache_data\<close> has the two namespaces
  \<^verbatim>\<open>'paths'\<close> and \<^verbatim>\<open>'folder_sizes'\<close>, each of which may be missing (the code
  tests for them before every access). A path entry is the dictionary written by
  \<^verbatim>\<open>set_path\<close>; a size entry is read with \<^verbatim>\<open>.get\<close>, so its two keys may be absent.
  Timestamps are the seconds returned by \<^verbatim>\<open>datetime.now().timestamp()\<close>, taken as
  real numbers.
\<close>

record path_entry =
  pe_id :: string
  pe_name :: string
  pe_timestamp :: real

record size_entry =
  se_size :: "int option"
  se_timestamp :: "real option"

record cache_dict =
  paths :: "(string \<rightharpoonup> path_entry) option"
  folder_sizes :: "(string \<rightharpoonup> size_entry) option"

text \<open>
  \<^verbatim>\<open>json.load\<close> returns whatever value the file holds. A top-level object is a
  \<open>Dict\<close>; any other JSON value is a \<open>NonDict\<close>.
\<close>

datatype json =
    JNull
  | JBool bool
  | JNumber real
  | JString string
  | JArray "json list"
  | JObject "(string \<times> json) list"

datatype non_object =
    TopNull
  | TopBool bool
  | TopNumber real
  | TopString string
  | TopArray "json list"

datatype cache_obj = Dict cache_dict | NonDict non_object

text \<open>
  The cache file as \<^verbatim>\<open>_load_cache\<close> meets it: absent, not readable (\<^verbatim>\<open>open\<close> or the
  read raises \<^verbatim>\<open>IOError\<close>), not JSON (\<^verbatim>\<open>json.load\<close> raises
  \<^verbatim>\<open>JSONDecodeError\<close>), or holding a JSON document.
\<close>

datatype backing_store =
    NoFile
  | Unreadable
  | NotJSON
  | Document cache_obj

definition CACHE_TTL_SECONDS :: real where
  "CACHE_TTL_SECONDS = 60 * 60"

definition empty_cache :: cache_dict where
  "empty_cache = \<lparr>paths = Some Map.empty, folder_sizes = Some Map.empty\<rparr>"

text \<open>
  Python's \<^verbatim>\<open>key in data\<close> for a value that is not a dictionary: substring test on a
  string, element test on a list, \<^verbatim>\<open>TypeError\<close> on \<^verbatim>\<open>None\<close>, booleans and numbers.
\<close>

fun py_contains :: "non_object \<Rightarrow> string \<Rightarrow> error + bool" where
  "py_contains (TopString s) key = Inr (sublist key s)"
| "py_contains (TopArray xs) key = Inr (JString key \<in> set xs)"
| "py_contains TopNull key = Inl TypeError"
| "py_contains (TopBool b) key = Inl TypeError"
| "py_contains (TopNumber x) key = Inl TypeError"

text \<open>
  \<^verbatim>\<open>_load_cache\<close>. Only \<^verbatim>\<open>JSONDecodeError\<close> and \<^verbatim>\<open>IOError\<close> are caught. On a value
  that is not a dictionary, \<^verbatim>\<open>data['paths'] = {}\<close> raises \<^verbatim>\<open>TypeError\<close>.
\<close>

definition ensure_key :: "non_object \<Rightarrow> string \<Rightarrow> error + unit" where
  "ensure_key j key =
     (case py_contains j key of
        Inl e \<Rightarrow> Inl e
      | Inr True \<Rightarrow> Inr ()
      | Inr False \<Rightarrow> Inl TypeError)"

definition load_cache :: "backing_store \<Rightarrow> error + cache_obj" where
  "load_cache file =
     (case file of
        NoFile \<Rightarrow> Inr (Dict empty_cache)
      | Unreadable \<Rightarrow> Inr (Dict empty_cache)
      | NotJSON \<Rightarrow> Inr (Dict empty_cache)
      | Document (Dict c) \<Rightarrow>
          Inr (Dict (c\<lparr>paths := Some (case paths c of None \<Rightarrow> Map.empty | Some m \<Rightarrow> m),
                       folder_sizes :=
                         Some (case folder_sizes c of None \<Rightarrow> Map.empty | Some m \<Rightarrow> m)\<rparr>))
      | Document (NonDict j) \<Rightarrow>
          (case ensure_key j ''paths'' of
             Inl e \<Rightarrow> Inl e
           | Inr _ \<Rightarrow>
               (case ensure_key j ''folder_sizes'' of
                  Inl e \<Rightarrow> Inl e
                | Inr _ \<Rightarrow> Inr (NonDict j))))"

section \<open>The environment and the state\<close>

text \<open>
  What the program reads from outside: the \<open>k\<close>-th reading of the clock, the outcome of
  the \<open>k\<close>-th attempt to write the cache file (it succeeds, or \<^verbatim>\<open>IOError\<close> is raised
  and the file is left in some state), the answer of the remote service to a folder
  lookup by parent and name, and the remote listings used for sizes.
\<close>

datatype write_outcome = Written | WriteFails backing_store

datatype find_response =
    FindHttpError string
  | FindFiles "(string \<times> string) list"

record env =
  clock :: "nat \<Rightarrow> real"
  disk :: "nat \<Rightarrow> write_outcome"
  remote_find :: "string \<Rightarrow> string \<Rightarrow> find_response"
  remote_drive :: drive

text \<open>
  The events that the claims speak of: the calls of the cache operations, the remote
  lookups of the path resolver and the start of a size traversal.
\<close>

datatype event =
    CacheGetPath string
  | CacheSetPath string
  | CacheGetSize string
  | CacheSetSize string
  | RemoteFind string string
  | SizeTraversal string

record world =
  cache_data :: cache_obj
  cache_file :: backing_store
  clock_reads :: nat
  disk_writes :: nat
  trace :: "event list"

definition log :: "event \<Rightarrow> world \<Rightarrow> world" where
  "log ev w = w\<lparr>trace := trace w @ [ev]\<rparr>"

definition now :: "env \<Rightarrow> world \<Rightarrow> real \<times> world" where
  "now e w = (clock e (clock_reads w), w\<lparr>clock_reads := Suc (clock_reads w)\<rparr>)"

text \<open>\<^verbatim>\<open>DriveCache.__init__\<close>.\<close>

definition new_cache :: "backing_store \<Rightarrow> error + world" where
  "new_cache file =
     (case load_cache file of
        Inl e \<Rightarrow> Inl e
      | Inr data \<Rightarrow>
          Inr \<lparr>cache_data = data, cache_file = file, clock_reads = 0, disk_writes = 0,
               trace = []\<rparr>)"

text \<open>\<^verbatim>\<open>_save_cache\<close>: the whole of \<^verbatim>\<open>_cache_data\<close> is dumped.\<close>

definition save_cache :: "env \<Rightarrow> world \<Rightarrow> (error + unit) \<times> world" where
  "save_cache e w =
     (case disk e (disk_writes w) of
        Written \<Rightarrow>
          (Inr (), w\<lparr>cache_file := Document (cache_data w), disk_writes := Suc (disk_writes w)\<rparr>)
      | WriteFails left \<Rightarrow>
          (Inl DriveCacheError, w\<lparr>cache_file := left, disk_writes := Suc (disk_writes w)\<rparr>))"

text \<open>\<^verbatim>\<open>PathInfo\<close> with the checks of its \<^verbatim>\<open>__post_init__\<close>.\<close>

record path_info =
  pi_id :: string
  pi_name :: string
  pi_path :: string

definition PathInfo :: "string \<Rightarrow> string \<Rightarrow> string \<Rightarrow> error + path_info" where
  "PathInfo i n p =
     (if i = [] then Inl ValueError
      else if n = [] then Inl ValueError
      else Inr \<lparr>pi_id = i, pi_name = n, pi_path = p\<rparr>)"

definition get_path :: "world \<Rightarrow> string \<Rightarrow> (error + path_info option) \<times> world" where
  "get_path w0 path =
     (let w = log (CacheGetPath path) w0 in
      case cache_data w of
        NonDict j \<Rightarrow>
          (case py_contains j ''paths'' of
             Inl e \<Rightarrow> (Inl e, w)
           | Inr False \<Rightarrow> (Inr None, w)
           | Inr True \<Rightarrow> (Inl TypeError, w))
      | Dict c \<Rightarrow>
          (case paths c of
             None \<Rightarrow> (Inr None, w)
           | Some m \<Rightarrow>
               (case m path of
                  None \<Rightarrow> (Inr None, w)
                | Some cached \<Rightarrow>
                    (case PathInfo (pe_id cached) (pe_name cached) path of
                       Inl e \<Rightarrow> (Inl e, w)
                     | Inr info \<Rightarrow> (Inr (Some info), w)))))"

definition set_path :: "env \<Rightarrow> world \<Rightarrow> string \<Rightarrow> path_info \<Rightarrow> (error + unit) \<times> world" where
  "set_path e w0 path info =
     (let w = log (CacheSetPath path) w0 in
      case cache_data w of
        NonDict j \<Rightarrow>
          (case py_contains j ''paths'' of
             Inl err \<Rightarrow> (Inl err, w)
           | Inr False \<Rightarrow> (Inl TypeError, w)
           | Inr True \<Rightarrow> (Inl TypeError, snd (now e w)))
      | Dict c \<Rightarrow>
          (let m = (case paths c of None \<Rightarrow> Map.empty | Some m \<Rightarrow> m);
               (t, w1) = now e w;
               entry = \<lparr>pe_id = pi_id info, pe_name = pi_name info, pe_timestamp = t\<rparr>
           in save_cache e (w1\<lparr>cache_data := Dict (c\<lparr>paths := Some (m(path \<mapsto> entry))\<rparr>)\<rparr>)))"

definition size_key :: "string \<Rightarrow> string" where
  "size_key folder_id = ''size_'' @ folder_id"

definition get_folder_size :: "env \<Rightarrow> world \<Rightarrow> string \<Rightarrow> (error + int option) \<times> world" where
  "get_folder_size e w0 folder_id =
     (let w = log (CacheGetSize folder_id) w0 in
      case cache_data w of
        NonDict j \<Rightarrow>
          (case py_contains j ''folder_sizes'' of
             Inl err \<Rightarrow> (Inl err, w)
           | Inr False \<Rightarrow> (Inr None, w)
           | Inr True \<Rightarrow> (Inl TypeError, w))
      | Dict c \<Rightarrow>
          (case folder_sizes c of
             None \<Rightarrow> (Inr None, w)
           | Some m \<Rightarrow>
               (case m (size_key folder_id) of
                  None \<Rightarrow> (Inr None, w)
                | Some cached \<Rightarrow>
                    if se_size cached = None \<and> se_timestamp cached = None then (Inr None, w)
                    else
                      (let (t, w1) = now e w;
                           age = t - (case se_timestamp cached of None \<Rightarrow> 0 | Some ts \<Rightarrow> ts)
                       in if age > CACHE_TTL_SECONDS then (Inr None, w1)
                          else (Inr (se_size cached), w1)))))"

definition set_folder_size :: "env \<Rightarrow> world \<Rightarrow> string \<Rightarrow> int \<Rightarrow> (error + unit) \<times> world" where
  "set_folder_size e w0 folder_id sz =
     (let w = log (CacheSetSize folder_id) w0 in
      case cache_data w of
        NonDict j \<Rightarrow>
          (case py_contains j ''folder_sizes'' of
             Inl err \<Rightarrow> (Inl err, w)
           | Inr False \<Rightarrow> (Inl TypeError, w)
           | Inr True \<Rightarrow> (Inl TypeError, snd (now e w)))
      | Dict c \<Rightarrow>
          (let m = (case folder_sizes c of None \<Rightarrow> Map.empty | Some m \<Rightarrow> m);
               (t, w1) = now e w;
               entry = \<lparr>se_size = Some sz, se_timestamp = Some t\<rparr>
           in save_cache e
                (w1\<lparr>cache_data := Dict (c\<lparr>folder_sizes := Some (m(size_key folder_id \<mapsto> entry))\<rparr>)\<rparr>)))"

definition clear :: "env \<Rightarrow> world \<Rightarrow> (error + unit) \<times> world" where
  "clear e w = save_cache e (w\<lparr>cache_data := Dict empty_cache\<rparr>)"

section \<open>Path resolution\<close>

text \<open>
  \<^verbatim>\<open>path.strip('/')\<close>, \<^verbatim>\<open>str.split('/')\<close> (which always returns at least one piece)
  and the list comprehension that drops the empty pieces.
\<close>

definition strip_slashes :: "string \<Rightarrow> string" where
  "strip_slashes s =
     rev (dropWhile (\<lambda>c. c = CHR ''/'') (rev (dropWhile (\<lambda>c. c = CHR ''/'') s)))"

fun split_on :: "char \<Rightarrow> string \<Rightarrow> string list" where
  "split_on sep [] = [[]]"
| "split_on sep (c # cs) =
     (if c = sep then [] # split_on sep cs
      else (case split_on sep cs of
              [] \<Rightarrow> [[c]]
            | p # ps \<Rightarrow> (c # p) # ps))"

definition path_parts :: "string \<Rightarrow> string list" where
  "path_parts path = filter (\<lambda>p. p \<noteq> []) (split_on CHR ''/'' (strip_slashes path))"

text \<open>
  \<^verbatim>\<open>_find_folder_in_parent\<close>: one remote request; an \<^verbatim>\<open>HttpError\<close> and an empty
  result both become \<^verbatim>\<open>DrivePathNotFoundError\<close>; otherwise the first match is taken.
\<close>

definition find_folder_in_parent ::
  "env \<Rightarrow> world \<Rightarrow> string \<Rightarrow> string \<Rightarrow> (error + string \<times> string) \<times> world" where
  "find_folder_in_parent e w0 parent_id folder_name =
     (let w = log (RemoteFind parent_id folder_name) w0 in
      case remote_find e parent_id folder_name of
        FindHttpError msg \<Rightarrow>
          (Inl (DrivePathNotFoundError
                  (''Error accessing folder '' @ [CHR 0x27] @ folder_name @ [CHR 0x27] @ '': '' @ msg)), w)
      | FindFiles [] \<Rightarrow>
          (Inl (DrivePathNotFoundError
                  (''Folder '' @ [CHR 0x27] @ folder_name @ [CHR 0x27] @ '' not found'')), w)
      | FindFiles (item # _) \<Rightarrow> (Inr item, w))"

definition not_found_message :: "string \<Rightarrow> string \<Rightarrow> string" where
  "not_found_message part path =
     ''Folder '' @ [CHR 0x27] @ part @ [CHR 0x27] @ '' not found in path '' @
     [CHR 0x27] @ path @ [CHR 0x27]"

text \<open>The loop \<^verbatim>\<open>for part in parts\<close> of \<^verbatim>\<open>_resolve_path_components\<close>.\<close>

fun walk ::
  "env \<Rightarrow> string \<Rightarrow> world \<Rightarrow> string \<times> string \<Rightarrow> string list \<Rightarrow>
   (error + string \<times> string) \<times> world" where
  "walk e path w current [] = (Inr current, w)"
| "walk e path w current (part # parts) =
     (case find_folder_in_parent e w (fst current) part of
        (Inl (DrivePathNotFoundError _), w') \<Rightarrow>
          (Inl (DrivePathNotFoundError (not_found_message part path)), w')
      | (Inl err, w') \<Rightarrow> (Inl err, w')
      | (Inr found, w') \<Rightarrow> walk e path w' found parts)"

definition resolve_path_components ::
  "env \<Rightarrow> world \<Rightarrow> string \<Rightarrow> (error + path_info) \<times> world" where
  "resolve_path_components e w path =
     (case walk e path w (''root'', ''My Drive'') (path_parts path) of
        (Inl err, w') \<Rightarrow> (Inl err, w')
      | (Inr (current_id, current_name), w') \<Rightarrow> (PathInfo current_id current_name path, w'))"

text \<open>\<^verbatim>\<open>PathResolver.resolve\<close>.\<close>

definition resolve :: "env \<Rightarrow> world \<Rightarrow> string \<Rightarrow> (error + path_info) \<times> world" where
  "resolve e w path0 =
     (let path = (if path0 = [] then ''/'' else path0) in
      if path = [] \<or> path = ''/'' then (PathInfo ''root'' ''My Drive'' ''/'', w)
      else
        (case get_path w path of
           (Inl err, w1) \<Rightarrow> (Inl err, w1)
         | (Inr (Some cached), w1) \<Rightarrow> (Inr cached, w1)
         | (Inr None, w1) \<Rightarrow>
             (case resolve_path_components e w1 path of
                (Inl err, w2) \<Rightarrow> (Inl err, w2)
              | (Inr info, w2) \<Rightarrow>
                  (case set_path e w2 path info of
                     (Inl err, w3) \<Rightarrow> (Inl err, w3)
                   | (Inr _, w3) \<Rightarrow> (Inr info, w3)))))"

section \<open>The explorer\<close>

text \<open>
  \<^verbatim>\<open>calculate_folder_size\<close>: a cached size is returned as it is; otherwise the folder is
  traversed with a fresh, empty visited set and the total is cached.
\<close>

definition calculate_folder_size :: "env \<Rightarrow> world \<Rightarrow> string \<Rightarrow> (error + int) \<times> world" where
  "calculate_folder_size e w folder_id =
     (if folder_id = [] then (Inl ValueError, w)
      else
        (case get_folder_size e w folder_id of
           (Inl err, w1) \<Rightarrow> (Inl err, w1)
         | (Inr (Some cached_size), w1) \<Rightarrow> (Inr cached_size, w1)
         | (Inr None, w1) \<Rightarrow>
             (let total_size = recursive_folder_size (remote_drive e) folder_id {};
                  w2 = log (SizeTraversal folder_id) w1
              in case set_folder_size e w2 folder_id total_size of
                   (Inl err, w3) \<Rightarrow> (Inl err, w3)
                 | (Inr _, w3) \<Rightarrow> (Inr total_size, w3))))"

text \<open>
  \<^verbatim>\<open>ListOptions\<close> and \<^verbatim>\<open>DriveItem\<close> of \<^verbatim>\<open>gdls/core.py\<close>. The fields
  \<^verbatim>\<open>created_time\<close>, \<^verbatim>\<open>owners\<close> and \<^verbatim>\<open>web_view_link\<close> are carried through unread by
  the operations below and are left out. A time is the instant that
  \<^verbatim>\<open>_parse_datetime\<close> returns, \<open>None\<close> when the key is absent or does not parse.
\<close>

record ListOptions =
  long_format :: bool
  human_readable :: bool
  show_hidden :: bool
  recursive :: bool
  sort_by :: string
  reverse_sort :: bool
  show_size :: bool
  owned_only :: bool
  show_ownership :: bool

record DriveItem =
  di_id :: string
  di_name :: string
  mime_type :: string
  di_size :: "int option"
  modified_time :: "real option"
  owned_by_me :: bool
  shared :: bool
  calculated_size :: "int option"

definition is_folder :: "DriveItem \<Rightarrow> bool" where
  "is_folder item \<longleftrightarrow> mime_type item = folder_mime"

text \<open>\<^verbatim>\<open>display_size\<close>: \<^verbatim>\<open>self.calculated_size or self.size or 0\<close>.\<close>

definition display_size :: "DriveItem \<Rightarrow> int" where
  "display_size item =
     (case calculated_size item of
        Some c \<Rightarrow> if c \<noteq> 0 then c else (case di_size item of Some s \<Rightarrow> s | None \<Rightarrow> 0)
      | None \<Rightarrow> (case di_size item of Some s \<Rightarrow> s | None \<Rightarrow> 0))"

text \<open>One entry of the response that \<^verbatim>\<open>_fetch_items\<close> asks for.\<close>

record api_item =
  a_id :: string
  a_name :: string
  a_mimeType :: "string option"
  a_size :: "int option"
  a_modifiedTime :: "real option"
  a_ownedByMe :: "bool option"
  a_shared :: "bool option"

text \<open>
  \<^verbatim>\<open>_convert_to_drive_items\<close>, with the checks of \<^verbatim>\<open>DriveItem.__post_init__\<close>.
\<close>

definition convert_item :: "api_item \<Rightarrow> error + DriveItem" where
  "convert_item item =
     (if a_id item = [] then Inl ValueError
      else if a_name item = [] then Inl ValueError
      else Inr \<lparr>di_id = a_id item, di_name = a_name item,
                mime_type = (case a_mimeType item of None \<Rightarrow> [] | Some m \<Rightarrow> m),
                di_size = a_size item,
                modified_time = a_modifiedTime item,
                owned_by_me = (case a_ownedByMe item of None \<Rightarrow> True | Some b \<Rightarrow> b),
                shared = (case a_shared item of None \<Rightarrow> False | Some b \<Rightarrow> b),
                calculated_size = None\<rparr>)"

fun convert_to_drive_items :: "api_item list \<Rightarrow> error + DriveItem list" where
  "convert_to_drive_items [] = Inr []"
| "convert_to_drive_items (item # items) =
     (case convert_item item of
        Inl err \<Rightarrow> Inl err
      | Inr drive_item \<Rightarrow>
          (case convert_to_drive_items items of
             Inl err \<Rightarrow> Inl err
           | Inr drive_items \<Rightarrow> Inr (drive_item # drive_items)))"

text \<open>
  \<^verbatim>\<open>_fetch_items\<close>: all pages are accumulated; an \<^verbatim>\<open>HttpError\<close> on any page becomes
  a \<^verbatim>\<open>DriveError\<close>.
\<close>

fun fetch_loop :: "api_item listing \<Rightarrow> DriveItem list \<Rightarrow> error + DriveItem list" where
  "fetch_loop (HttpFailure msg) all_items = Inl (DriveError (''Failed to list files: '' @ msg))"
| "fetch_loop (Page items next_token) all_items =
     (case convert_to_drive_items items of
        Inl err \<Rightarrow> Inl err
      | Inr drive_items \<Rightarrow>
          (case next_token of
             None \<Rightarrow> Inr (all_items @ drive_items)
           | Some next_page \<Rightarrow> fetch_loop next_page (all_items @ drive_items)))"

text \<open>
  The answer of the remote service to the query of \<^verbatim>\<open>_fetch_items\<close>, which depends on
  the folder and on whether \<^verbatim>\<open>trashed=false\<close> is part of the query.
\<close>

type_synonym remote_list = "string \<Rightarrow> bool \<Rightarrow> api_item listing"

definition fetch_items :: "remote_list \<Rightarrow> string \<Rightarrow> ListOptions \<Rightarrow> error + DriveItem list" where
  "fetch_items remote folder_id options = fetch_loop (remote folder_id (show_hidden options)) []"

text \<open>\<^verbatim>\<open>_calculate_folder_sizes\<close>; the items are returned with their new sizes.\<close>

fun calculate_folder_sizes ::
  "env \<Rightarrow> world \<Rightarrow> DriveItem list \<Rightarrow> (error + DriveItem list) \<times> world" where
  "calculate_folder_sizes e w [] = (Inr [], w)"
| "calculate_folder_sizes e w (item # items) =
     (if is_folder item then
        (if owned_by_me item then
           (case calculate_folder_size e w (di_id item) of
              (Inl err, w') \<Rightarrow> (Inl err, w')
            | (Inr sz, w') \<Rightarrow>
                (case calculate_folder_sizes e w' items of
                   (Inl err, w'') \<Rightarrow> (Inl err, w'')
                 | (Inr rest, w'') \<Rightarrow> (Inr (item\<lparr>calculated_size := Some sz\<rparr> # rest), w'')))
         else
           (case calculate_folder_sizes e w items of
              (Inl err, w'') \<Rightarrow> (Inl err, w'')
            | (Inr rest, w'') \<Rightarrow> (Inr (item\<lparr>calculated_size := Some 0\<rparr> # rest), w'')))
      else
        (case calculate_folder_sizes e w items of
           (Inl err, w'') \<Rightarrow> (Inl err, w'')
         | (Inr rest, w'') \<Rightarrow> (Inr (item # rest), w'')))"

text \<open>
  \<^verbatim>\<open>str.lower\<close> on the letters \<open>A\<close> to \<open>Z\<close>; other bytes are left as they are.
\<close>

definition lower_char :: "char \<Rightarrow> char" where
  "lower_char c =
     (if (65 :: nat) \<le> of_char c \<and> of_char c \<le> (90 :: nat) then char_of (of_char c + (32 :: nat))
      else c)"

definition lower :: "string \<Rightarrow> string" where
  "lower s = map lower_char s"

text \<open>
  \<^verbatim>\<open>list.sort(key=..., reverse=True)\<close> keeps the order of entries with equal keys.
\<close>

definition sort_descending :: "('a \<Rightarrow> 'k::linorder) \<Rightarrow> 'a list \<Rightarrow> 'a list" where
  "sort_descending key xs = rev (sort_key key (rev xs))"

text \<open>
  \<^verbatim>\<open>_sort_items\<close>. Sorting by date compares \<^verbatim>\<open>x.modified_time or datetime.min\<close>; the
  parsed times carry a time zone and \<^verbatim>\<open>datetime.min\<close> does not, and Python refuses to
  compare the two with a \<^verbatim>\<open>TypeError\<close>.
\<close>

definition sort_items :: "DriveItem list \<Rightarrow> ListOptions \<Rightarrow> error + DriveItem list" where
  "sort_items items options =
     (let sorted_items =
        (if sort_by options = ''size'' then Inr (sort_descending display_size items)
         else if sort_by options = ''date'' then
           (if list_all (\<lambda>x. modified_time x = None) items then Inr items
            else if list_all (\<lambda>x. modified_time x \<noteq> None) items then
              Inr (sort_descending (\<lambda>x. the (modified_time x)) items)
            else Inl TypeError)
         else if sort_by options = ''type'' then
           Inr (sort_key (\<lambda>x. (mime_type x, lower (di_name x))) items)
         else Inr (sort_key (\<lambda>x. lower (di_name x)) items))
      in case sorted_items of
           Inl err \<Rightarrow> Inl err
         | Inr xs \<Rightarrow> Inr (if reverse_sort options then rev xs else xs))"

text \<open>\<^verbatim>\<open>list_files\<close>.\<close>

definition list_files ::
  "env \<Rightarrow> remote_list \<Rightarrow> world \<Rightarrow> string \<Rightarrow> ListOptions \<Rightarrow> (error + DriveItem list) \<times> world" where
  "list_files e remote w folder_id options =
     (if folder_id = [] then (Inl ValueError, w)
      else
        (case fetch_items remote folder_id options of
           Inl err \<Rightarrow> (Inl err, w)
         | Inr fetched_items \<Rightarrow>
             (let items = (if owned_only options then filter owned_by_me fetched_items
                           else fetched_items)
              in if show_size options then
                   (case calculate_folder_sizes e w items of
                      (Inl err, w') \<Rightarrow> (Inl err, w')
                    | (Inr sized, w') \<Rightarrow> (sort_items sized options, w'))
                 else (sort_items items options, w))))"

section \<open>Properties of the size calculation\<close>

text \<open>
  The bytes of the entries that carry a size, and the entries that the traversal
  descends into.
\<close>

definition file_bytes :: "api_file list \<Rightarrow> int" where
  "file_bytes items = (\<Sum>item\<leftarrow>items. case f_size item of Some s \<Rightarrow> s | None \<Rightarrow> 0)"

definition subfolders :: "api_file list \<Rightarrow> api_file list" where
  "subfolders items = filter is_subfolder items"

lemma item_loop_sum:
  "item_loop f items total_size =
     total_size + file_bytes items + (\<Sum>c\<leftarrow>subfolders items. f c)"
  by (induction items arbitrary: total_size)
     (simp_all add: file_bytes_def subfolders_def is_subfolder_def split: option.splits)

lemma page_loop_sum:
  "page_loop f l total_size =
     total_size + file_bytes (fetched l) + (\<Sum>c\<leftarrow>subfolders (fetched l). f c)"
proof (induction l arbitrary: total_size rule: fetched.induct)
  case 1
  show ?case by (simp add: file_bytes_def subfolders_def)
next
  case (2 items)
  show ?case by (simp add: item_loop_sum)
next
  case (3 items next_page)
  show ?case
    by (simp add: 3 item_loop_sum) (simp add: file_bytes_def subfolders_def)
qed

lemma recursive_folder_size_reentry:
  "folder_id \<in> visited \<Longrightarrow> recursive_folder_size d folder_id visited = 0"
  by (simp add: recursive_folder_size.simps)

lemma recursive_folder_size_descend:
  "folder_id \<notin> visited \<Longrightarrow>
   recursive_folder_size d folder_id visited =
     file_bytes (fetched (list_children d folder_id)) +
     (\<Sum>c\<leftarrow>subfolders (fetched (list_children d folder_id)).
        recursive_folder_size d (f_id c) (insert folder_id visited))"
  by (subst recursive_folder_size.simps) (simp add: page_loop_sum)

lemma sum_list_skip:
  assumes "\<And>c. c \<in> set cs \<Longrightarrow> \<not> P c \<Longrightarrow> g c = 0"
  shows "(\<Sum>c\<leftarrow>cs. g c) = (\<Sum>c\<leftarrow>filter P cs. (g c :: int))"
  using assms by (induction cs) auto

text \<open>
  Claim C1. The traversal is a total function: \<open>recursive_folder_size\<close> is defined by
  well-founded recursion on the number of known folders outside the visited set, for
  every remote store, cyclic or not. A folder that is entered again on a branch that
  already holds it contributes zero. Hence, inside the traversal started at \<open>A\<close> (where
  every visited set holds \<open>A\<close>), a descendant \<open>D\<close> contributes the bytes of its own
  files, each once, plus the totals of its subfolders other than \<open>A\<close>: the child \<open>A\<close> of
  \<open>D\<close> is left out. The traversal of \<open>A\<close> itself hands \<open>{A}\<close> down to its subfolders.
\<close>

theorem cycle_reentry_excluded:
  "(A \<in> visited \<longrightarrow> recursive_folder_size d A visited = 0) \<and>
   (A \<in> visited \<and> D \<notin> visited \<longrightarrow>
      recursive_folder_size d D visited =
        file_bytes (fetched (list_children d D)) +
        (\<Sum>c\<leftarrow>filter (\<lambda>c. f_id c \<noteq> A) (subfolders (fetched (list_children d D))).
           recursive_folder_size d (f_id c) (insert D visited))) \<and>
   recursive_folder_size d A {} =
     file_bytes (fetched (list_children d A)) +
     (\<Sum>c\<leftarrow>subfolders (fetched (list_children d A)). recursive_folder_size d (f_id c) {A})"
proof (intro conjI impI)
  assume "A \<in> visited"
  then show "recursive_folder_size d A visited = 0"
    by (rule recursive_folder_size_reentry)
next
  assume h: "A \<in> visited \<and> D \<notin> visited"
  let ?cs = "subfolders (fetched (list_children d D))"
  let ?g = "\<lambda>c. recursive_folder_size d (f_id c) (insert D visited)"
  have "(\<Sum>c\<leftarrow>?cs. ?g c) = (\<Sum>c\<leftarrow>filter (\<lambda>c. f_id c \<noteq> A) ?cs. ?g c)"
  proof (rule sum_list_skip)
    fix c assume "\<not> f_id c \<noteq> A"
    then have "f_id c \<in> insert D visited" using h by simp
    then show "?g c = 0" by (rule recursive_folder_size_reentry)
  qed
  with h show "recursive_folder_size d D visited =
        file_bytes (fetched (list_children d D)) +
        (\<Sum>c\<leftarrow>filter (\<lambda>c. f_id c \<noteq> A) ?cs. ?g c)"
    by (simp add: recursive_folder_size_descend)
next
  show "recursive_folder_size d A {} =
     file_bytes (fetched (list_children d A)) +
     (\<Sum>c\<leftarrow>subfolders (fetched (list_children d A)). recursive_folder_size d (f_id c) {A})"
    by (simp add: recursive_folder_size_descend)
qed

text \<open>
  A store with a cycle: \<open>A\<close> holds a file of 5 bytes and the folder \<open>D\<close>; \<open>D\<close> holds a
  file of 7 bytes on its first page and the folder \<open>A\<close> on its second.
\<close>

definition cycle_drive :: drive where
  "cycle_drive =
     [(''A'', Page [\<lparr>f_id = ''a1'', f_mimeType = Some ''text/plain'', f_size = Some 5\<rparr>,
                    \<lparr>f_id = ''D'', f_mimeType = Some folder_mime, f_size = None\<rparr>] None),
      (''D'', Page [\<lparr>f_id = ''d1'', f_mimeType = Some ''text/plain'', f_size = Some 7\<rparr>]
                (Some (Page [\<lparr>f_id = ''A'', f_mimeType = Some folder_mime, f_size = None\<rparr>] None)))]"

theorem cycle_reentry_excluded_witness:
  "''A'' \<in> {''A'', ''D''} \<and> ''A'' \<in> {''A''} \<and> ''D'' \<notin> {''A''} \<and>
   recursive_folder_size cycle_drive ''A'' {''A'', ''D''} = 0 \<and>
   recursive_folder_size cycle_drive ''D'' {''A''} = 7 \<and>
   recursive_folder_size cycle_drive ''A'' {} = 12"
  using cycle_reentry_excluded [of "''A''" "{''A''}" cycle_drive "''D''"]
        cycle_reentry_excluded [of "''A''" "{''A'', ''D''}" cycle_drive "''D''"]
  by (simp add: cycle_drive_def list_children_def file_bytes_def subfolders_def is_subfolder_def)

section \<open>Properties of the cache\<close>

lemma load_cache_unusable:
  "load_cache NoFile = Inr (Dict empty_cache)"
  "load_cache Unreadable = Inr (Dict empty_cache)"
  "load_cache NotJSON = Inr (Dict empty_cache)"
  by (simp_all add: load_cache_def)

lemma save_cache_failure:
  "disk e (disk_writes w) = WriteFails left \<Longrightarrow> fst (save_cache e w) = Inl DriveCacheError"
  by (simp add: save_cache_def)

lemma write_failure_raises:
  assumes "cache_data w = Dict c" "disk e (disk_writes w) = WriteFails left"
  shows "fst (set_path e w path info) = Inl DriveCacheError"
    and "fst (set_folder_size e w folder_id sz) = Inl DriveCacheError"
    and "fst (clear e w) = Inl DriveCacheError"
  using assms
  by (simp_all add: set_path_def set_folder_size_def clear_def save_cache_def log_def now_def
        Let_def)

text \<open>
  Claim C7. A cache file that cannot be read, or that does not hold JSON, gives the
  empty cache (\<open>load_cache_unusable\<close>), and a write that fails raises
  \<^verbatim>\<open>DriveCacheError\<close> from \<^verbatim>\<open>set_path\<close>, \<^verbatim>\<open>set_folder_size\<close> and \<^verbatim>\<open>clear\<close>
  (\<open>write_failure_raises\<close>). But a damaged file that still parses as JSON and whose
  value is not an object, such as the empty array or \<^verbatim>\<open>null\<close>, makes the constructor
  raise \<^verbatim>\<open>TypeError\<close>: the handler of \<^verbatim>\<open>_load_cache\<close> catches
  \<^verbatim>\<open>JSONDecodeError\<close> and \<^verbatim>\<open>IOError\<close> only.
\<close>

theorem load_cache_non_object_raises:
  "load_cache (Document (NonDict (TopArray []))) = Inl TypeError \<and>
   new_cache (Document (NonDict (TopArray []))) = Inl TypeError \<and>
   new_cache (Document (NonDict TopNull)) = Inl TypeError"
  by (simp add: load_cache_def new_cache_def ensure_key_def)


text \<open>
  An environment whose clock always reads 1000 and whose writes succeed, and the state
  after constructing the cache when no cache file exists.
\<close>

definition still_env :: env where
  "still_env = \<lparr>clock = (\<lambda>k. 1000), disk = (\<lambda>k. Written),
                 remote_find = (\<lambda>parent name. FindFiles []), remote_drive = []\<rparr>"

definition fresh_world :: world where
  "fresh_world = \<lparr>cache_data = Dict empty_cache, cache_file = NoFile, clock_reads = 0,
                   disk_writes = 0, trace = []\<rparr>"

lemma fresh_world_new: "new_cache NoFile = Inr fresh_world"
  by (simp add: new_cache_def load_cache_def fresh_world_def)





lemma get_folder_size_hit:
  assumes "fst (get_folder_size e w folder_id) = Inr (Some s)"
  shows "\<exists>c m cached.
           cache_data w = Dict c \<and> folder_sizes c = Some m \<and>
           m (size_key folder_id) = Some cached \<and> se_size cached = Some s \<and>
           clock e (clock_reads w) - (case se_timestamp cached of None \<Rightarrow> 0 | Some ts \<Rightarrow> ts)
             \<le> CACHE_TTL_SECONDS"
proof (cases "cache_data w")
  case (NonDict j)
  with assms show ?thesis
    by (simp add: get_folder_size_def log_def Let_def split: sum.splits bool.splits)
next
  case (Dict c)
  with assms show ?thesis
    by (auto simp: get_folder_size_def log_def now_def Let_def
             split: option.splits if_splits)
qed

lemma get_folder_size_expired:
  assumes "cache_data w = Dict c" "folder_sizes c = Some m"
    and "m (size_key folder_id) = Some cached" "se_timestamp cached = Some t0"
    and "clock e (clock_reads w) - t0 > CACHE_TTL_SECONDS"
  shows "get_folder_size e w folder_id =
           (Inr None, w\<lparr>trace := trace w @ [CacheGetSize folder_id],
                         clock_reads := Suc (clock_reads w)\<rparr>)"
  using assms by (simp add: get_folder_size_def log_def now_def Let_def)

lemma calculate_folder_size_miss:
  assumes "get_folder_size e w folder_id = (Inr None, w1)" "folder_id \<noteq> []"
  shows "snd (calculate_folder_size e w folder_id) =
           snd (set_folder_size e (log (SizeTraversal folder_id) w1) folder_id
                  (recursive_folder_size (remote_drive e) folder_id {}))"
    and "fst (calculate_folder_size e w folder_id) =
           (case fst (set_folder_size e (log (SizeTraversal folder_id) w1) folder_id
                        (recursive_folder_size (remote_drive e) folder_id {})) of
              Inl err \<Rightarrow> Inl err
            | Inr u \<Rightarrow> Inr (recursive_folder_size (remote_drive e) folder_id {}))"
proof -
  let ?total = "recursive_folder_size (remote_drive e) folder_id {}"
  obtain x w3 where r:
    "set_folder_size e (log (SizeTraversal folder_id) w1) folder_id ?total = (x, w3)"
    by (cases "set_folder_size e (log (SizeTraversal folder_id) w1) folder_id ?total")
  have c: "calculate_folder_size e w folder_id =
             (case x of Inl err \<Rightarrow> (Inl err, w3) | Inr u \<Rightarrow> (Inr ?total, w3))"
    using assms r by (simp add: calculate_folder_size_def Let_def)
  show "snd (calculate_folder_size e w folder_id) =
           snd (set_folder_size e (log (SizeTraversal folder_id) w1) folder_id ?total)"
    unfolding c r by (cases x) simp_all
  show "fst (calculate_folder_size e w folder_id) =
           (case fst (set_folder_size e (log (SizeTraversal folder_id) w1) folder_id ?total) of
              Inl err \<Rightarrow> Inl err | Inr u \<Rightarrow> Inr ?total)"
    unfolding c r by (cases x) simp_all
qed

lemma set_folder_size_trace:
  "trace (snd (set_folder_size e w folder_id sz)) = trace w @ [CacheSetSize folder_id]"
  by (cases "cache_data w")
     (simp_all add: set_folder_size_def log_def now_def save_cache_def Let_def
        split: sum.splits bool.splits write_outcome.splits)

lemma set_folder_size_written:
  assumes "cache_data w = Dict c" "disk e (disk_writes w) = Written"
  shows "fst (set_folder_size e w folder_id sz) = Inr ()"
  using assms
  by (simp add: set_folder_size_def log_def now_def save_cache_def Let_def)

text \<open>
  Claim C3. \<^verbatim>\<open>get_folder_size\<close> returns a size only from an entry whose age, the clock
  reading minus the stored timestamp, is at most one hour. An entry written at \<open>t0\<close> and
  looked up when the clock reads \<open>t0 + TTL + 1\<close> is answered like a missing one:
  \<^verbatim>\<open>calculate_folder_size\<close> then traverses the folder again, stores the new total and
  (when the write succeeds) returns it.
\<close>

theorem ttl_expiry:
  "(fst (get_folder_size e w folder_id) = Inr (Some s) \<longrightarrow>
      (\<exists>c m cached.
          cache_data w = Dict c \<and> folder_sizes c = Some m \<and>
          m (size_key folder_id) = Some cached \<and> se_size cached = Some s \<and>
          clock e (clock_reads w) - (case se_timestamp cached of None \<Rightarrow> 0 | Some ts \<Rightarrow> ts)
            \<le> CACHE_TTL_SECONDS)) \<and>
   (cache_data w = Dict c \<and> folder_sizes c = Some m \<and>
    m (size_key folder_id) = Some cached \<and> se_timestamp cached = Some t0 \<and>
    clock e (clock_reads w) = t0 + CACHE_TTL_SECONDS + 1 \<and> folder_id \<noteq> [] \<longrightarrow>
      fst (get_folder_size e w folder_id) = Inr None \<and>
      trace (snd (calculate_folder_size e w folder_id)) =
        trace w @ [CacheGetSize folder_id, SizeTraversal folder_id, CacheSetSize folder_id] \<and>
      (disk e (disk_writes w) = Written \<longrightarrow>
         fst (calculate_folder_size e w folder_id) =
           Inr (recursive_folder_size (remote_drive e) folder_id {})))"
proof (intro conjI impI)
  assume "fst (get_folder_size e w folder_id) = Inr (Some s)"
  then show "\<exists>c m cached.
          cache_data w = Dict c \<and> folder_sizes c = Some m \<and>
          m (size_key folder_id) = Some cached \<and> se_size cached = Some s \<and>
          clock e (clock_reads w) - (case se_timestamp cached of None \<Rightarrow> 0 | Some ts \<Rightarrow> ts)
            \<le> CACHE_TTL_SECONDS"
    by (rule get_folder_size_hit)
next
  assume h: "cache_data w = Dict c \<and> folder_sizes c = Some m \<and>
    m (size_key folder_id) = Some cached \<and> se_timestamp cached = Some t0 \<and>
    clock e (clock_reads w) = t0 + CACHE_TTL_SECONDS + 1 \<and> folder_id \<noteq> []"
  let ?w1 = "w\<lparr>trace := trace w @ [CacheGetSize folder_id], clock_reads := Suc (clock_reads w)\<rparr>"
  let ?total = "recursive_folder_size (remote_drive e) folder_id {}"
  have miss: "get_folder_size e w folder_id = (Inr None, ?w1)"
    using h
    by (intro get_folder_size_expired[where c = c and m = m and cached = cached and ?t0.0 = t0])
       (simp_all add: CACHE_TTL_SECONDS_def)
  then show "fst (get_folder_size e w folder_id) = Inr None" by simp
  have calc_snd: "snd (calculate_folder_size e w folder_id) =
          snd (set_folder_size e (log (SizeTraversal folder_id) ?w1) folder_id ?total)"
    using miss h by (intro calculate_folder_size_miss(1)) simp_all
  have calc_fst: "fst (calculate_folder_size e w folder_id) =
          (case fst (set_folder_size e (log (SizeTraversal folder_id) ?w1) folder_id ?total) of
             Inl err \<Rightarrow> Inl err | Inr u \<Rightarrow> Inr ?total)"
    using miss h by (intro calculate_folder_size_miss(2)) simp_all
  show "trace (snd (calculate_folder_size e w folder_id)) =
        trace w @ [CacheGetSize folder_id, SizeTraversal folder_id, CacheSetSize folder_id]"
    unfolding calc_snd by (simp add: set_folder_size_trace log_def)
  {
    assume ok: "disk e (disk_writes w) = Written"
    have "fst (set_folder_size e (log (SizeTraversal folder_id) ?w1) folder_id ?total) = Inr ()"
      using h ok by (intro set_folder_size_written[where c = c]) (simp_all add: log_def)
    then show "fst (calculate_folder_size e w folder_id) = Inr ?total"
      unfolding calc_fst by simp
  }
qed


text \<open>
  A cache that holds the size 99 for folder \<open>A\<close>, computed at time 1000, and an
  environment whose clock always reads \<open>t\<close> and whose remote store is the one above.
\<close>

definition aged_entry :: size_entry where
  "aged_entry = \<lparr>se_size = Some 99, se_timestamp = Some 1000\<rparr>"

definition aged_cache :: cache_dict where
  "aged_cache = \<lparr>paths = Some Map.empty, folder_sizes = Some [''size_A'' \<mapsto> aged_entry]\<rparr>"

definition aged_world :: world where
  "aged_world = \<lparr>cache_data = Dict aged_cache, cache_file = Document (Dict aged_cache),
                  clock_reads = 0, disk_writes = 0, trace = []\<rparr>"

definition cycle_env :: "real \<Rightarrow> env" where
  "cycle_env t = \<lparr>clock = (\<lambda>k. t), disk = (\<lambda>k. Written),
                   remote_find = (\<lambda>parent name. FindFiles []), remote_drive = cycle_drive\<rparr>"

theorem ttl_expiry_witness:
  "cache_data aged_world = Dict aged_cache \<and>
   folder_sizes aged_cache = Some [''size_A'' \<mapsto> aged_entry] \<and>
   [''size_A'' \<mapsto> aged_entry] (size_key ''A'') = Some aged_entry \<and>
   se_timestamp aged_entry = Some 1000 \<and>
   clock (cycle_env 4601) (clock_reads aged_world) = 1000 + CACHE_TTL_SECONDS + 1 \<and>
   ''A'' \<noteq> [] \<and> disk (cycle_env 4601) (disk_writes aged_world) = Written \<and>
   fst (get_folder_size (cycle_env 4601) aged_world ''A'') = Inr None \<and>
   fst (calculate_folder_size (cycle_env 4601) aged_world ''A'') = Inr 12 \<and>
   fst (get_folder_size (cycle_env 4600) aged_world ''A'') = Inr (Some 99) \<and>
   clock (cycle_env 4600) (clock_reads aged_world) - 1000 \<le> CACHE_TTL_SECONDS"
proof -
  have total: "recursive_folder_size cycle_drive ''A'' {} = 12"
    by (simp add: recursive_folder_size.simps cycle_drive_def list_children_def)
  have hit: "fst (get_folder_size (cycle_env 4600) aged_world ''A'') = Inr (Some 99)"
    by (simp add: get_folder_size_def aged_world_def aged_cache_def aged_entry_def cycle_env_def
          log_def now_def Let_def size_key_def CACHE_TTL_SECONDS_def)
  show ?thesis
    using ttl_expiry [of "cycle_env 4601" aged_world "''A''" 99 aged_cache
                         "[''size_A'' \<mapsto> aged_entry]" aged_entry 1000]
          ttl_expiry [of "cycle_env 4600" aged_world "''A''" 99 aged_cache
                         "[''size_A'' \<mapsto> aged_entry]" aged_entry 1000]
          hit total
    by (simp add: aged_world_def aged_cache_def aged_entry_def cycle_env_def size_key_def
          CACHE_TTL_SECONDS_def)
qed


section \<open>Properties of path resolution\<close>

lemma snd_get_path [simp]: "snd (get_path w path) = log (CacheGetPath path) w"
  by (simp add: get_path_def Let_def split: cache_obj.splits sum.splits bool.splits option.splits)

lemma snd_find_folder_in_parent [simp]:
  "snd (find_folder_in_parent e w parent_id folder_name) = log (RemoteFind parent_id folder_name) w"
  by (simp add: find_folder_in_parent_def Let_def split: find_response.splits list.splits)

lemma find_folder_in_parent_empty:
  "remote_find e parent_id folder_name = FindFiles [] \<Longrightarrow>
   \<exists>msg. fst (find_folder_in_parent e w parent_id folder_name) = Inl (DrivePathNotFoundError msg)"
  by (simp add: find_folder_in_parent_def Let_def)

lemma find_folder_in_parent_error:
  "remote_find e parent_id folder_name = FindHttpError reason \<Longrightarrow>
   \<exists>msg. fst (find_folder_in_parent e w parent_id folder_name) = Inl (DrivePathNotFoundError msg)"
  by (simp add: find_folder_in_parent_def Let_def)

lemma find_folder_in_parent_found:
  "remote_find e parent_id folder_name = FindFiles (item # items) \<Longrightarrow>
   find_folder_in_parent e w parent_id folder_name =
     (Inr item, log (RemoteFind parent_id folder_name) w)"
  by (simp add: find_folder_in_parent_def Let_def)

lemma find_folder_in_parent_result:
  "(\<exists>msg. find_folder_in_parent e w parent_id folder_name =
           (Inl (DrivePathNotFoundError msg), log (RemoteFind parent_id folder_name) w)) \<or>
   (\<exists>item. find_folder_in_parent e w parent_id folder_name =
           (Inr item, log (RemoteFind parent_id folder_name) w))"
proof (cases "remote_find e parent_id folder_name")
  case (FindHttpError reason)
  then show ?thesis by (simp add: find_folder_in_parent_def Let_def)
next
  case (FindFiles items)
  then show ?thesis by (cases items) (simp_all add: find_folder_in_parent_def Let_def)
qed

lemma find_folder_in_parent_cases:
  obtains (missing) msg where
      "find_folder_in_parent e w parent_id folder_name =
         (Inl (DrivePathNotFoundError msg), log (RemoteFind parent_id folder_name) w)"
    | (found) item where
      "find_folder_in_parent e w parent_id folder_name =
         (Inr item, log (RemoteFind parent_id folder_name) w)"
  using find_folder_in_parent_result[of e w parent_id folder_name] by blast

text \<open>The events of a trace that a call has added, and the remote lookups among events.\<close>

definition added :: "world \<Rightarrow> world \<Rightarrow> event list" where
  "added w w' = drop (length (trace w)) (trace w')"

fun remote_lookups :: "event list \<Rightarrow> (string \<times> string) list" where
  "remote_lookups [] = []"
| "remote_lookups (RemoteFind parent name # evs) = (parent, name) # remote_lookups evs"
| "remote_lookups (ev # evs) = remote_lookups evs"

definition untouched :: "world \<Rightarrow> world \<Rightarrow> bool" where
  "untouched w w' \<longleftrightarrow>
     cache_data w' = cache_data w \<and> cache_file w' = cache_file w \<and>
     disk_writes w' = disk_writes w \<and> clock_reads w' = clock_reads w"

lemma untouched_refl [simp]: "untouched w w"
  by (simp add: untouched_def)

lemma untouched_log [simp]: "untouched w (log ev w') = untouched w w'"
  by (simp add: untouched_def log_def)

lemma trace_log [simp]: "trace (log ev w) = trace w @ [ev]"
  by (simp add: log_def)

lemma log_fields [simp]:
  "cache_data (log ev w) = cache_data w"
  "cache_file (log ev w) = cache_file w"
  "clock_reads (log ev w) = clock_reads w"
  "disk_writes (log ev w) = disk_writes w"
  by (simp_all add: log_def)

lemma walk_failure:
  "fst (walk e path w current parts) = Inl err \<Longrightarrow> \<exists>msg. err = DrivePathNotFoundError msg"
proof (induction parts arbitrary: w current)
  case Nil
  then show ?case by simp
next
  case (Cons part parts)
  show ?case
  proof (cases rule: find_folder_in_parent_cases[of e w "fst current" part])
    case (missing msg)
    with Cons.prems show ?thesis by auto
  next
    case (found item)
    with Cons.prems have "fst (walk e path (log (RemoteFind (fst current) part) w) item parts) = Inl err"
      by simp
    then show ?thesis by (rule Cons.IH)
  qed
qed

lemma walk_state:
  "\<exists>evs. trace (snd (walk e path w current parts)) = trace w @ evs \<and>
         (\<forall>ev \<in> set evs. \<exists>parent name. ev = RemoteFind parent name) \<and>
         untouched w (snd (walk e path w current parts))"
proof (induction parts arbitrary: w current)
  case Nil
  show ?case by simp
next
  case (Cons part parts)
  show ?case
  proof (cases rule: find_folder_in_parent_cases[of e w "fst current" part])
    case (missing msg)
    then show ?thesis by simp
  next
    case (found item)
    let ?w1 = "log (RemoteFind (fst current) part) w"
    from Cons.IH[of ?w1 item] obtain evs where
      "trace (snd (walk e path ?w1 item parts)) = trace ?w1 @ evs"
      "\<forall>ev \<in> set evs. \<exists>parent name. ev = RemoteFind parent name"
      "untouched ?w1 (snd (walk e path ?w1 item parts))"
      by blast
    then show ?thesis using found
      by (intro exI[of _ "RemoteFind (fst current) part # evs"]) (auto simp: untouched_def log_def)
  qed
qed

lemma walk_append:
  assumes "walk e path w current pre = (Inr reached, w1)"
  shows "walk e path w current (pre @ rest) = walk e path w1 reached rest"
  using assms
proof (induction pre arbitrary: w current)
  case Nil
  then show ?case by simp
next
  case (Cons part pre)
  show ?case
  proof (cases rule: find_folder_in_parent_cases[of e w "fst current" part])
    case (missing msg)
    with Cons.prems show ?thesis by simp
  next
    case (found item)
    with Cons.prems Cons.IH show ?thesis by simp
  qed
qed

lemma walk_missing_segment:
  assumes "walk e path w current pre = (Inr (cid, cname), w1)"
    and "remote_find e cid seg = FindFiles [] \<or> (\<exists>reason. remote_find e cid seg = FindHttpError reason)"
  shows "walk e path w current (pre @ seg # post) =
           (Inl (DrivePathNotFoundError (not_found_message seg path)), log (RemoteFind cid seg) w1)"
proof -
  from assms(2) obtain msg where
    "fst (find_folder_in_parent e w1 cid seg) = Inl (DrivePathNotFoundError msg)"
    using find_folder_in_parent_empty find_folder_in_parent_error by blast
  then have "find_folder_in_parent e w1 cid seg =
               (Inl (DrivePathNotFoundError msg), log (RemoteFind cid seg) w1)"
    by (metis prod.collapse snd_find_folder_in_parent)
  then have "walk e path w1 (cid, cname) (seg # post) =
           (Inl (DrivePathNotFoundError (not_found_message seg path)), log (RemoteFind cid seg) w1)"
    by simp
  with walk_append[OF assms(1)] show ?thesis by simp
qed


lemma py_contains_error: "py_contains j key = Inl err \<Longrightarrow> err = TypeError"
  by (cases j) simp_all

lemma set_path_error:
  "fst (set_path e w path info) = Inl err \<Longrightarrow> err = TypeError \<or> err = DriveCacheError"
  by (cases "cache_data w")
     (auto simp: set_path_def save_cache_def now_def Let_def
           split: sum.splits bool.splits write_outcome.splits dest: py_contains_error)

lemma set_path_trace [simp]:
  "trace (snd (set_path e w path info)) = trace w @ [CacheSetPath path]"
  by (cases "cache_data w")
     (simp_all add: set_path_def save_cache_def now_def log_def Let_def
           split: sum.splits bool.splits write_outcome.splits)

lemma get_path_error:
  "fst (get_path w path) = Inl err \<Longrightarrow> err = TypeError \<or> err = ValueError"
  by (cases "cache_data w")
     (auto simp: get_path_def PathInfo_def Let_def
           split: sum.splits bool.splits option.splits if_splits dest: py_contains_error)

lemma resolve_path_components_state:
  "\<exists>evs. trace (snd (resolve_path_components e w path)) = trace w @ evs \<and>
         (\<forall>ev \<in> set evs. \<exists>parent name. ev = RemoteFind parent name) \<and>
         untouched w (snd (resolve_path_components e w path))"
proof -
  have "snd (resolve_path_components e w path) =
        snd (walk e path w (''root'', ''My Drive'') (path_parts path))"
    by (simp add: resolve_path_components_def split: prod.splits sum.splits)
  then show ?thesis using walk_state[of e path w "(''root'', ''My Drive'')" "path_parts path"]
    by simp
qed

lemma resolve_path_components_failure:
  "fst (resolve_path_components e w path) = Inl (DrivePathNotFoundError msg) \<Longrightarrow>
   \<exists>m. fst (walk e path w (''root'', ''My Drive'') (path_parts path)) =
          Inl (DrivePathNotFoundError m)"
  by (auto simp: resolve_path_components_def PathInfo_def split: prod.splits sum.splits if_splits)

lemma resolve_path_components_success:
  "fst (resolve_path_components e w path) = Inr info \<Longrightarrow>
   \<exists>reached. fst (walk e path w (''root'', ''My Drive'') (path_parts path)) = Inr reached"
  by (auto simp: resolve_path_components_def split: prod.splits sum.splits)

lemma resolve_miss:
  assumes "path \<noteq> []" "path \<noteq> ''/''" "fst (get_path w path) = Inr None"
  shows "resolve e w path =
     (case resolve_path_components e (log (CacheGetPath path) w) path of
        (Inl err, w2) \<Rightarrow> (Inl err, w2)
      | (Inr info, w2) \<Rightarrow>
          (case set_path e w2 path info of
             (Inl err, w3) \<Rightarrow> (Inl err, w3)
           | (Inr u, w3) \<Rightarrow> (Inr info, w3)))"
proof -
  have "get_path w path = (Inr None, log (CacheGetPath path) w)"
    using assms(3) by (metis prod.collapse snd_get_path)
  then show ?thesis using assms(1,2) by (simp add: resolve_def)
qed

lemma resolve_root:
  "resolve e w [] = (Inr \<lparr>pi_id = ''root'', pi_name = ''My Drive'', pi_path = ''/''\<rparr>, w)"
  "resolve e w ''/'' = (Inr \<lparr>pi_id = ''root'', pi_name = ''My Drive'', pi_path = ''/''\<rparr>, w)"
  by (simp_all add: resolve_def PathInfo_def)

lemma resolve_hit_or_error:
  assumes "path \<noteq> []" "path \<noteq> ''/''" "fst (get_path w path) \<noteq> Inr None"
  shows "snd (resolve e w path) = log (CacheGetPath path) w"
    and "fst (resolve e w path) \<noteq> Inl (DrivePathNotFoundError msg)"
proof -
  obtain r where g: "get_path w path = (r, log (CacheGetPath path) w)"
    by (metis prod.collapse snd_get_path)
  with assms(3) have r: "r \<noteq> Inr None" by simp
  show "snd (resolve e w path) = log (CacheGetPath path) w"
    using assms(1,2) g r by (cases r) (auto simp: resolve_def split: option.splits)
  show "fst (resolve e w path) \<noteq> Inl (DrivePathNotFoundError msg)"
  proof (cases r)
    case (Inl err)
    with g have "fst (get_path w path) = Inl err" by simp
    then have "err = TypeError \<or> err = ValueError" by (rule get_path_error)
    then show ?thesis using assms(1,2) g Inl by (auto simp: resolve_def)
  next
    case (Inr found)
    then show ?thesis using assms(1,2) g r by (cases found) (auto simp: resolve_def)
  qed
qed

lemma added_log [simp]: "added w (log ev w) = [ev]"
  by (simp add: added_def)

lemma added_append: "trace w' = trace w @ evs \<Longrightarrow> added w w' = evs"
  by (simp add: added_def)

lemma resolve_not_found_untouched:
  assumes "fst (resolve e w path) = Inl (DrivePathNotFoundError msg)"
  shows "untouched w (snd (resolve e w path))"
    and "CacheSetPath p \<notin> set (added w (snd (resolve e w path)))"
proof -
  have nontrivial: "path \<noteq> []" "path \<noteq> ''/''"
    using assms by (auto simp: resolve_root)
  have miss: "fst (get_path w path) = Inr None"
    using resolve_hit_or_error(2)[OF nontrivial, of w e msg] assms by blast
  let ?w1 = "log (CacheGetPath path) w"
  obtain r2 w2 where c: "resolve_path_components e ?w1 path = (r2, w2)"
    by (cases "resolve_path_components e ?w1 path")
  from resolve_path_components_state[of e ?w1 path] c obtain evs where
    evs: "trace w2 = trace ?w1 @ evs" "\<forall>ev \<in> set evs. \<exists>parent name. ev = RemoteFind parent name"
      "untouched ?w1 w2"
    by auto
  have res: "resolve e w path =
     (case r2 of Inl err \<Rightarrow> (Inl err, w2)
      | Inr info \<Rightarrow> (case set_path e w2 path info of
             (Inl err, w3) \<Rightarrow> (Inl err, w3) | (Inr u, w3) \<Rightarrow> (Inr info, w3)))"
    by (simp add: resolve_miss[OF nontrivial miss] c)
  have "\<exists>err. r2 = Inl err"
  proof (cases r2)
    case (Inl err)
    then show ?thesis by simp
  next
    case (Inr info)
    obtain r3 w3 where s: "set_path e w2 path info = (r3, w3)"
      by (cases "set_path e w2 path info")
    show ?thesis
    proof (cases r3)
      case (Inl err3)
      with s have "fst (set_path e w2 path info) = Inl err3" by simp
      then have "err3 = TypeError \<or> err3 = DriveCacheError" by (rule set_path_error)
      with assms res Inr s Inl show ?thesis by auto
    next
      case (Inr u)
      with assms res \<open>r2 = Inr info\<close> s show ?thesis by auto
    qed
  qed
  then obtain err where "r2 = Inl err" ..
  with res have w: "snd (resolve e w path) = w2" by simp
  show "untouched w (snd (resolve e w path))"
    using evs(3) unfolding w by (simp add: untouched_def log_def)
  have "added w w2 = CacheGetPath path # evs"
    using evs(1) by (intro added_append) simp
  then show "CacheSetPath p \<notin> set (added w (snd (resolve e w path)))"
    unfolding w using evs(2) by auto
qed

lemma resolve_missing_segment:
  assumes "path \<noteq> []" "path \<noteq> ''/''" "fst (get_path w path) = Inr None"
    and "path_parts path = pre @ seg # post"
    and "walk e path (log (CacheGetPath path) w) (''root'', ''My Drive'') pre =
           (Inr (cid, cname), w1)"
    and "remote_find e cid seg = FindFiles [] \<or>
         (\<exists>reason. remote_find e cid seg = FindHttpError reason)"
  shows "fst (resolve e w path) = Inl (DrivePathNotFoundError (not_found_message seg path))"
proof -
  have "walk e path (log (CacheGetPath path) w) (''root'', ''My Drive'') (path_parts path) =
          (Inl (DrivePathNotFoundError (not_found_message seg path)), log (RemoteFind cid seg) w1)"
    unfolding assms(4) using assms(5,6) by (rule walk_missing_segment)
  then have "resolve_path_components e (log (CacheGetPath path) w) path =
          (Inl (DrivePathNotFoundError (not_found_message seg path)), log (RemoteFind cid seg) w1)"
    by (simp add: resolve_path_components_def)
  then show ?thesis by (simp add: resolve_miss[OF assms(1-3)])
qed

lemma resolve_set_path_after_walk:
  assumes "CacheSetPath p \<in> set (added w (snd (resolve e w path)))"
  shows "\<exists>reached. fst (walk e path (log (CacheGetPath path) w) (''root'', ''My Drive'')
                        (path_parts path)) = Inr reached"
proof -
  have nontrivial: "path \<noteq> []" "path \<noteq> ''/''"
    using assms by (auto simp: resolve_root added_def)
  have miss: "fst (get_path w path) = Inr None"
  proof (rule ccontr)
    assume "fst (get_path w path) \<noteq> Inr None"
    then have "snd (resolve e w path) = log (CacheGetPath path) w"
      by (rule resolve_hit_or_error(1)[OF nontrivial])
    with assms show False by simp
  qed
  let ?w1 = "log (CacheGetPath path) w"
  obtain r2 w2 where c: "resolve_path_components e ?w1 path = (r2, w2)"
    by (cases "resolve_path_components e ?w1 path")
  from resolve_path_components_state[of e ?w1 path] c obtain evs where
    evs: "trace w2 = trace ?w1 @ evs" "\<forall>ev \<in> set evs. \<exists>parent name. ev = RemoteFind parent name"
    by auto
  have res: "resolve e w path =
     (case r2 of Inl err \<Rightarrow> (Inl err, w2)
      | Inr info \<Rightarrow> (case set_path e w2 path info of
             (Inl err, w3) \<Rightarrow> (Inl err, w3) | (Inr u, w3) \<Rightarrow> (Inr info, w3)))"
    by (simp add: resolve_miss[OF nontrivial miss] c)
  show ?thesis
  proof (cases r2)
    case (Inl err)
    with res have "snd (resolve e w path) = w2" by simp
    moreover have "added w w2 = CacheGetPath path # evs"
      using evs(1) by (intro added_append) simp
    ultimately show ?thesis using assms evs(2) by auto
  next
    case (Inr info)
    with c have "fst (resolve_path_components e ?w1 path) = Inr info" by simp
    then show ?thesis by (rule resolve_path_components_success)
  qed
qed

text \<open>
  Claim C4. When the walk of a path that is not in the cache fails at some segment,
  after a prefix that resolved (the remote service finds no such folder, or answers with
  an error), \<^verbatim>\<open>resolve\<close> raises \<^verbatim>\<open>DrivePathNotFoundError\<close>. Whenever \<^verbatim>\<open>resolve\<close> raises
  this error, the cache data and the cache file are what they were, nothing was written
  and \<^verbatim>\<open>set_path\<close> was not called. A call of \<^verbatim>\<open>set_path\<close> happens only when the walk
  over all segments has succeeded.
\<close>

theorem resolve_transactional:
  "(path \<noteq> [] \<and> path \<noteq> ''/'' \<and> fst (get_path w path) = Inr None \<and>
    path_parts path = pre @ seg # post \<and>
    walk e path (log (CacheGetPath path) w) (''root'', ''My Drive'') pre =
      (Inr (cid, cname), w1) \<and>
    (remote_find e cid seg = FindFiles [] \<or>
     (\<exists>reason. remote_find e cid seg = FindHttpError reason)) \<longrightarrow>
      (\<exists>msg. fst (resolve e w path) = Inl (DrivePathNotFoundError msg))) \<and>
   (fst (resolve e w path) = Inl (DrivePathNotFoundError msg) \<longrightarrow>
      cache_data (snd (resolve e w path)) = cache_data w \<and>
      cache_file (snd (resolve e w path)) = cache_file w \<and>
      disk_writes (snd (resolve e w path)) = disk_writes w \<and>
      (\<forall>p. CacheSetPath p \<notin> set (added w (snd (resolve e w path))))) \<and>
   ((\<exists>p. CacheSetPath p \<in> set (added w (snd (resolve e w path)))) \<longrightarrow>
      (\<exists>reached. fst (walk e path (log (CacheGetPath path) w) (''root'', ''My Drive'')
                         (path_parts path)) = Inr reached))"
proof (intro conjI impI)
  assume "path \<noteq> [] \<and> path \<noteq> ''/'' \<and> fst (get_path w path) = Inr None \<and>
    path_parts path = pre @ seg # post \<and>
    walk e path (log (CacheGetPath path) w) (''root'', ''My Drive'') pre =
      (Inr (cid, cname), w1) \<and>
    (remote_find e cid seg = FindFiles [] \<or>
     (\<exists>reason. remote_find e cid seg = FindHttpError reason))"
  then have "fst (resolve e w path) = Inl (DrivePathNotFoundError (not_found_message seg path))"
    by (intro resolve_missing_segment[where pre = pre and post = post and cid = cid
          and cname = cname and ?w1.0 = w1]) simp_all
  then show "\<exists>msg. fst (resolve e w path) = Inl (DrivePathNotFoundError msg)" ..
next
  assume nf: "fst (resolve e w path) = Inl (DrivePathNotFoundError msg)"
  from resolve_not_found_untouched(1)[OF nf]
  show "cache_data (snd (resolve e w path)) = cache_data w"
    and "cache_file (snd (resolve e w path)) = cache_file w"
    and "disk_writes (snd (resolve e w path)) = disk_writes w"
    by (simp_all add: untouched_def)
  show "\<forall>p. CacheSetPath p \<notin> set (added w (snd (resolve e w path)))"
    using resolve_not_found_untouched(2)[OF nf] by blast
next
  assume "\<exists>p. CacheSetPath p \<in> set (added w (snd (resolve e w path)))"
  then obtain p where "CacheSetPath p \<in> set (added w (snd (resolve e w path)))" ..
  then show "\<exists>reached. fst (walk e path (log (CacheGetPath path) w) (''root'', ''My Drive'')
                         (path_parts path)) = Inr reached"
    by (rule resolve_set_path_after_walk)
qed

text \<open>
  A remote store with the folder \<open>A\<close> under the root and the folder \<open>B\<close> under \<open>A\<close>, and
  nothing else.
\<close>

definition ab_env :: env where
  "ab_env =
     \<lparr>clock = (\<lambda>k. 1000), disk = (\<lambda>k. Written),
      remote_find = (\<lambda>parent name.
         if parent = ''root'' \<and> name = ''A'' then FindFiles [(''idA'', ''A'')]
         else if parent = ''idA'' \<and> name = ''B'' then FindFiles [(''idB'', ''B'')]
         else FindFiles []),
      remote_drive = []\<rparr>"

lemmas resolve_unfold =
  resolve_def get_path_def set_path_def resolve_path_components_def path_parts_def
  strip_slashes_def find_folder_in_parent_def PathInfo_def save_cache_def now_def log_def
  not_found_message_def Let_def

theorem resolve_transactional_witness:
  "''/A/B/Z'' \<noteq> [] \<and> ''/A/B/Z'' \<noteq> ''/'' \<and>
   fst (get_path fresh_world ''/A/B/Z'') = Inr None \<and>
   path_parts ''/A/B/Z'' = [''A'', ''B''] @ ''Z'' # [] \<and>
   fst (walk ab_env ''/A/B/Z'' (log (CacheGetPath ''/A/B/Z'') fresh_world)
          (''root'', ''My Drive'') [''A'', ''B'']) = Inr (''idB'', ''B'') \<and>
   remote_find ab_env ''idB'' ''Z'' = FindFiles [] \<and>
   fst (resolve ab_env fresh_world ''/A/B/Z'') =
     Inl (DrivePathNotFoundError (''Folder 'Z' not found in path '/A/B/Z'' @ [CHR 0x27])) \<and>
   cache_data (snd (resolve ab_env fresh_world ''/A/B/Z'')) = Dict empty_cache \<and>
   CacheSetPath ''/A/B/Z'' \<notin> set (added fresh_world (snd (resolve ab_env fresh_world ''/A/B/Z''))) \<and>
   CacheSetPath ''/A/B'' \<in> set (added fresh_world (snd (resolve ab_env fresh_world ''/A/B''))) \<and>
   fst (walk ab_env ''/A/B'' (log (CacheGetPath ''/A/B'') fresh_world)
          (''root'', ''My Drive'') (path_parts ''/A/B'')) = Inr (''idB'', ''B'')"
proof -
  have r: "fst (resolve ab_env fresh_world ''/A/B/Z'') =
     Inl (DrivePathNotFoundError (''Folder 'Z' not found in path '/A/B/Z'' @ [CHR 0x27]))"
    by (simp add: resolve_unfold ab_env_def fresh_world_def empty_cache_def)
  have s: "CacheSetPath ''/A/B'' \<in> set (added fresh_world (snd (resolve ab_env fresh_world ''/A/B'')))"
    by (simp add: resolve_unfold ab_env_def fresh_world_def empty_cache_def added_def)
  have w: "walk ab_env ''/A/B/Z'' (log (CacheGetPath ''/A/B/Z'') fresh_world)
          (''root'', ''My Drive'') [''A'', ''B''] =
          (Inr (''idB'', ''B''),
           log (RemoteFind ''idA'' ''B'') (log (RemoteFind ''root'' ''A'')
             (log (CacheGetPath ''/A/B/Z'') fresh_world)))"
    by (simp add: find_folder_in_parent_def ab_env_def Let_def)
  show ?thesis
    using resolve_transactional
            [of "''/A/B/Z''" fresh_world "[''A'', ''B'']" "''Z''" "[]" ab_env "''idB''" "''B''"
                "log (RemoteFind ''idA'' ''B'') (log (RemoteFind ''root'' ''A'')
                   (log (CacheGetPath ''/A/B/Z'') fresh_world))"
                "''Folder 'Z' not found in path '/A/B/Z'' @ [CHR 0x27]"]
          resolve_transactional
            [of "''/A/B''" fresh_world "[]" "[]" "[]" ab_env "[]" "[]" fresh_world "[]"]
          r s w
    by (simp add: path_parts_def strip_slashes_def get_path_def fresh_world_def empty_cache_def
          ab_env_def log_def Let_def find_folder_in_parent_def)
qed

text \<open>
  Claim C8. When a path is not in the cache, a prefix of its segments resolves and the
  remote service finds no folder for the next segment, \<^verbatim>\<open>resolve\<close> raises
  \<^verbatim>\<open>DrivePathNotFoundError\<close> with the message
  \<^verbatim>\<open>Folder '<segment>' not found in path '<path>'\<close>, which holds both the failing
  segment and the whole path as given.
\<close>

theorem path_not_found_message:
  assumes "path \<noteq> []" "path \<noteq> ''/''" "fst (get_path w path) = Inr None"
    and "path_parts path = pre @ seg # post"
    and "walk e path (log (CacheGetPath path) w) (''root'', ''My Drive'') pre =
           (Inr (cid, cname), w1)"
    and "remote_find e cid seg = FindFiles []"
  shows "\<exists>msg. fst (resolve e w path) = Inl (DrivePathNotFoundError msg) \<and>
           msg = ''Folder '' @ [CHR 0x27] @ seg @ [CHR 0x27] @ '' not found in path '' @
                 [CHR 0x27] @ path @ [CHR 0x27] \<and>
           sublist seg msg \<and> sublist path msg"
proof -
  let ?msg = "''Folder '' @ [CHR 0x27] @ seg @ [CHR 0x27] @ '' not found in path '' @
                 [CHR 0x27] @ path @ [CHR 0x27]"
  have "fst (resolve e w path) = Inl (DrivePathNotFoundError (not_found_message seg path))"
    using assms(1-5) by (rule resolve_missing_segment) (simp add: assms(6))
  then have raised: "fst (resolve e w path) = Inl (DrivePathNotFoundError ?msg)"
    by (simp add: not_found_message_def)
  have "sublist seg ((''Folder '' @ [CHR 0x27]) @ seg @
          ([CHR 0x27] @ '' not found in path '' @ [CHR 0x27] @ path @ [CHR 0x27]))"
    by (rule sublist_appendI)
  then have s1: "sublist seg ?msg" by simp
  have "sublist path ((''Folder '' @ [CHR 0x27] @ seg @ [CHR 0x27] @ '' not found in path '' @
          [CHR 0x27]) @ path @ [CHR 0x27])"
    by (rule sublist_appendI)
  then have s2: "sublist path ?msg" by simp
  from raised s1 s2 show ?thesis by blast
qed

theorem path_not_found_message_witness:
  "''/A/Z'' \<noteq> [] \<and> ''/A/Z'' \<noteq> ''/'' \<and> fst (get_path fresh_world ''/A/Z'') = Inr None \<and>
   path_parts ''/A/Z'' = [''A''] @ ''Z'' # [] \<and>
   walk ab_env ''/A/Z'' (log (CacheGetPath ''/A/Z'') fresh_world) (''root'', ''My Drive'') [''A''] =
     (Inr (''idA'', ''A''),
      log (RemoteFind ''root'' ''A'') (log (CacheGetPath ''/A/Z'') fresh_world)) \<and>
   remote_find ab_env ''idA'' ''Z'' = FindFiles [] \<and>
   fst (resolve ab_env fresh_world ''/A/Z'') =
     Inl (DrivePathNotFoundError (''Folder 'Z' not found in path '/A/Z'' @ [CHR 0x27]))"
proof -
  have h: "''/A/Z'' \<noteq> []" "''/A/Z'' \<noteq> ''/''" "fst (get_path fresh_world ''/A/Z'') = Inr None"
    "path_parts ''/A/Z'' = [''A''] @ ''Z'' # []"
    "walk ab_env ''/A/Z'' (log (CacheGetPath ''/A/Z'') fresh_world) (''root'', ''My Drive'') [''A''] =
     (Inr (''idA'', ''A''),
      log (RemoteFind ''root'' ''A'') (log (CacheGetPath ''/A/Z'') fresh_world))"
    "remote_find ab_env ''idA'' ''Z'' = FindFiles []"
    by (simp_all add: path_parts_def strip_slashes_def get_path_def fresh_world_def
          empty_cache_def ab_env_def log_def Let_def find_folder_in_parent_def)
  from path_not_found_message[OF h] h show ?thesis by simp
qed

lemma split_on_no_sep: "sep \<notin> set s \<Longrightarrow> split_on sep s = [s]"
  by (induction s) auto

lemma split_on_append:
  "sep \<notin> set a \<Longrightarrow> split_on sep (a @ sep # rest) = a # split_on sep rest"
  by (induction a) auto

lemma strip_slashes_two_segments:
  assumes "a \<noteq> []" "CHR ''/'' \<notin> set a" "b \<noteq> []" "CHR ''/'' \<notin> set b"
  shows "strip_slashes (CHR ''/'' # a @ CHR ''/'' # b) = a @ CHR ''/'' # b"
proof -
  obtain x xs where a: "a = x # xs" using assms(1) by (cases a) auto
  obtain y ys where b: "rev b = y # ys" using assms(3) by (cases "rev b") auto
  have x: "x \<noteq> CHR ''/''" using assms(2) a by auto
  have "y \<in> set b" using b by (metis list.set_intros(1) set_rev)
  then have y: "y \<noteq> CHR ''/''" using assms(4) by auto
  have "dropWhile (\<lambda>c. c = CHR ''/'') (CHR ''/'' # a @ CHR ''/'' # b) = a @ CHR ''/'' # b"
    using x a by simp
  moreover have "dropWhile (\<lambda>c. c = CHR ''/'') (rev (a @ CHR ''/'' # b)) = rev (a @ CHR ''/'' # b)"
    using y b by simp
  ultimately show ?thesis by (simp add: strip_slashes_def)
qed

lemma path_parts_two_segments:
  assumes "a \<noteq> []" "CHR ''/'' \<notin> set a" "b \<noteq> []" "CHR ''/'' \<notin> set b"
  shows "path_parts (CHR ''/'' # a @ CHR ''/'' # b) = [a, b]"
proof -
  have "split_on CHR ''/'' (a @ CHR ''/'' # b) = [a, b]"
    using assms(2,4) by (simp add: split_on_append split_on_no_sep)
  then show ?thesis
    using assms by (simp add: path_parts_def strip_slashes_two_segments)
qed

lemma strip_slashes_only: "strip_slashes (replicate n CHR ''/'') = []"
proof -
  have "dropWhile (\<lambda>c. c = CHR ''/'') (replicate n CHR ''/'') = []"
    by (induction n) auto
  then show ?thesis by (simp add: strip_slashes_def)
qed

lemma path_parts_slashes: "path_parts (replicate n CHR ''/'') = []"
  by (simp add: path_parts_def strip_slashes_only)

lemma get_path_miss:
  assumes "cache_data w = Dict c" "(case paths c of None \<Rightarrow> None | Some m \<Rightarrow> m path) = None"
  shows "get_path w path = (Inr None, log (CacheGetPath path) w)"
  using assms by (simp add: get_path_def Let_def split: option.splits)

lemma set_path_written:
  assumes "cache_data w = Dict c" "disk e (disk_writes w) = Written"
  shows "set_path e w path info =
     (Inr (),
      w\<lparr>trace := trace w @ [CacheSetPath path],
        clock_reads := Suc (clock_reads w),
        cache_data := Dict (c\<lparr>paths := Some ((case paths c of None \<Rightarrow> Map.empty | Some m \<Rightarrow> m)
           (path \<mapsto> \<lparr>pe_id = pi_id info, pe_name = pi_name info,
                       pe_timestamp = clock e (clock_reads w)\<rparr>))\<rparr>),
        cache_file := Document (Dict (c\<lparr>paths := Some ((case paths c of None \<Rightarrow> Map.empty | Some m \<Rightarrow> m)
           (path \<mapsto> \<lparr>pe_id = pi_id info, pe_name = pi_name info,
                       pe_timestamp = clock e (clock_reads w)\<rparr>))\<rparr>)),
        disk_writes := Suc (disk_writes w)\<rparr>)"
  using assms by (simp add: set_path_def save_cache_def now_def log_def Let_def)

lemma get_path_after_set_path:
  assumes "cache_data w = Dict c" "disk e (disk_writes w) = Written"
    and "pi_id info \<noteq> []" "pi_name info \<noteq> []" "pi_path info = path"
  shows "get_path (snd (set_path e w path info)) path =
           (Inr (Some info), log (CacheGetPath path) (snd (set_path e w path info)))"
  using assms
  by (simp add: set_path_written[OF assms(1,2)] get_path_def PathInfo_def Let_def log_def)

lemma resolve_hit:
  assumes "path \<noteq> []" "path \<noteq> ''/''" "get_path w path = (Inr (Some info), w1)"
  shows "resolve e w path = (Inr info, w1)"
  using assms by (simp add: resolve_def)

lemma resolve_cold_success:
  assumes "path \<noteq> []" "path \<noteq> ''/''"
    and "cache_data w = Dict c" "(case paths c of None \<Rightarrow> None | Some m \<Rightarrow> m path) = None"
    and "walk e path (log (CacheGetPath path) w) (''root'', ''My Drive'') (path_parts path) =
           (Inr (i, n), w1)"
    and "i \<noteq> []" "n \<noteq> []"
  shows "resolve e w path =
           (case set_path e w1 path \<lparr>pi_id = i, pi_name = n, pi_path = path\<rparr> of
              (Inl err, w3) \<Rightarrow> (Inl err, w3)
            | (Inr u, w3) \<Rightarrow> (Inr \<lparr>pi_id = i, pi_name = n, pi_path = path\<rparr>, w3))"
proof -
  have "fst (get_path w path) = Inr None"
    using get_path_miss[OF assms(3,4)] by simp
  then show ?thesis
    using assms(1,2,5,6,7)
    by (simp add: resolve_miss resolve_path_components_def PathInfo_def)
qed


lemma resolve_without_segments:
  assumes "path \<noteq> []" "path \<noteq> ''/''" "path_parts path = []"
  shows "added w (snd (resolve e w path)) = [CacheGetPath path] \<or>
         added w (snd (resolve e w path)) = [CacheGetPath path, CacheSetPath path]"
proof (cases "fst (get_path w path) = Inr None")
  case False
  then have "snd (resolve e w path) = log (CacheGetPath path) w"
    by (rule resolve_hit_or_error(1)[OF assms(1,2)])
  then show ?thesis by simp
next
  case True
  let ?w0 = "log (CacheGetPath path) w"
  let ?info = "\<lparr>pi_id = ''root'', pi_name = ''My Drive'', pi_path = path\<rparr>"
  have "resolve_path_components e ?w0 path = (Inr ?info, ?w0)"
    using assms(3) by (simp add: resolve_path_components_def PathInfo_def)
  then have "snd (resolve e w path) = snd (set_path e ?w0 path ?info)"
    by (simp add: resolve_miss[OF assms(1,2) True] split: prod.splits sum.splits)
  then have "trace (snd (resolve e w path)) = trace w @ [CacheGetPath path, CacheSetPath path]"
    by simp
  then show ?thesis by (simp add: added_append)
qed

text \<open>
  Claim C5. \<^verbatim>\<open>resolve("")\<close> and \<^verbatim>\<open>resolve("/")\<close> return the root and leave the state,
  trace included, as it was: no remote call and no cache lookup. For a path of two
  segments \<open>/A/B\<close> that is not in the cache, when the remote service finds \<open>A\<close> under the
  root and \<open>B\<close> under \<open>A\<close> and the cache file can be written, \<^verbatim>\<open>resolve\<close> makes one cache
  lookup, one remote lookup for each of the two segments and one \<^verbatim>\<open>set_path\<close>; a second
  \<^verbatim>\<open>resolve\<close> of the same path string then makes one cache lookup and no remote lookup,
  whatever the remote service would answer, and returns the same result.
\<close>

theorem resolve_lookup_counts:
  "resolve e w [] = (Inr \<lparr>pi_id = ''root'', pi_name = ''My Drive'', pi_path = ''/''\<rparr>, w) \<and>
   resolve e w ''/'' = (Inr \<lparr>pi_id = ''root'', pi_name = ''My Drive'', pi_path = ''/''\<rparr>, w) \<and>
   (A \<noteq> [] \<and> CHR ''/'' \<notin> set A \<and> B \<noteq> [] \<and> CHR ''/'' \<notin> set B \<and>
    cache_data w = Dict c \<and>
    (case paths c of None \<Rightarrow> None | Some m \<Rightarrow> m (''/'' @ A @ ''/'' @ B)) = None \<and>
    remote_find e ''root'' A = FindFiles ((ia, na) # ra) \<and>
    remote_find e ia B = FindFiles ((ib, nb) # rb) \<and> ib \<noteq> [] \<and> nb \<noteq> [] \<and>
    disk e (disk_writes w) = Written \<longrightarrow>
      fst (resolve e w (''/'' @ A @ ''/'' @ B)) =
        Inr \<lparr>pi_id = ib, pi_name = nb, pi_path = ''/'' @ A @ ''/'' @ B\<rparr> \<and>
      added w (snd (resolve e w (''/'' @ A @ ''/'' @ B))) =
        [CacheGetPath (''/'' @ A @ ''/'' @ B), RemoteFind ''root'' A, RemoteFind ia B,
         CacheSetPath (''/'' @ A @ ''/'' @ B)] \<and>
      (\<forall>e2. fst (resolve e2 (snd (resolve e w (''/'' @ A @ ''/'' @ B))) (''/'' @ A @ ''/'' @ B)) =
               Inr \<lparr>pi_id = ib, pi_name = nb, pi_path = ''/'' @ A @ ''/'' @ B\<rparr> \<and>
            added (snd (resolve e w (''/'' @ A @ ''/'' @ B)))
              (snd (resolve e2 (snd (resolve e w (''/'' @ A @ ''/'' @ B))) (''/'' @ A @ ''/'' @ B))) =
               [CacheGetPath (''/'' @ A @ ''/'' @ B)]))"
proof (intro conjI impI)
  show "resolve e w [] = (Inr \<lparr>pi_id = ''root'', pi_name = ''My Drive'', pi_path = ''/''\<rparr>, w)"
    by (rule resolve_root(1))
  show "resolve e w ''/'' = (Inr \<lparr>pi_id = ''root'', pi_name = ''My Drive'', pi_path = ''/''\<rparr>, w)"
    by (rule resolve_root(2))
next
  let ?path = "''/'' @ A @ ''/'' @ B"
  let ?info = "\<lparr>pi_id = ib, pi_name = nb, pi_path = ?path\<rparr>"
  let ?w0 = "log (CacheGetPath ?path) w"
  let ?w1 = "log (RemoteFind ia B) (log (RemoteFind ''root'' A) ?w0)"
  assume h: "A \<noteq> [] \<and> CHR ''/'' \<notin> set A \<and> B \<noteq> [] \<and> CHR ''/'' \<notin> set B \<and>
    cache_data w = Dict c \<and>
    (case paths c of None \<Rightarrow> None | Some m \<Rightarrow> m ?path) = None \<and>
    remote_find e ''root'' A = FindFiles ((ia, na) # ra) \<and>
    remote_find e ia B = FindFiles ((ib, nb) # rb) \<and> ib \<noteq> [] \<and> nb \<noteq> [] \<and>
    disk e (disk_writes w) = Written"
  have nontrivial: "?path \<noteq> []" "?path \<noteq> ''/''" using h by auto
  have parts: "path_parts ?path = [A, B]"
    using h path_parts_two_segments[of A B] by simp
  have walked: "walk e ?path ?w0 (''root'', ''My Drive'') (path_parts ?path) = (Inr (ib, nb), ?w1)"
    using h unfolding parts by (simp add: find_folder_in_parent_found)
  have res: "resolve e w ?path =
           (case set_path e ?w1 ?path ?info of
              (Inl err, w3) \<Rightarrow> (Inl err, w3)
            | (Inr u, w3) \<Rightarrow> (Inr ?info, w3))"
    using nontrivial h walked by (intro resolve_cold_success[where c = c]) simp_all
  have d: "cache_data ?w1 = Dict c" "disk e (disk_writes ?w1) = Written"
    using h by simp_all
  have written: "fst (set_path e ?w1 ?path ?info) = Inr ()"
    using set_path_written[OF d, of ?path ?info] by simp
  have fst_res: "fst (resolve e w ?path) = Inr ?info"
    and snd_res: "snd (resolve e w ?path) = snd (set_path e ?w1 ?path ?info)"
    using written unfolding res by (cases "set_path e ?w1 ?path ?info"; simp)+
  show "fst (resolve e w ?path) = Inr ?info" by (rule fst_res)
  have "trace (snd (resolve e w ?path)) =
          trace w @ [CacheGetPath ?path, RemoteFind ''root'' A, RemoteFind ia B, CacheSetPath ?path]"
    unfolding snd_res by simp
  then show "added w (snd (resolve e w ?path)) =
          [CacheGetPath ?path, RemoteFind ''root'' A, RemoteFind ia B, CacheSetPath ?path]"
    by (rule added_append)
  show "\<forall>e2. fst (resolve e2 (snd (resolve e w ?path)) ?path) = Inr ?info \<and>
            added (snd (resolve e w ?path)) (snd (resolve e2 (snd (resolve e w ?path)) ?path)) =
               [CacheGetPath ?path]"
  proof
    fix e2
    have "get_path (snd (set_path e ?w1 ?path ?info)) ?path =
            (Inr (Some ?info), log (CacheGetPath ?path) (snd (set_path e ?w1 ?path ?info)))"
      using h by (intro get_path_after_set_path[OF d]) simp_all
    then have "resolve e2 (snd (resolve e w ?path)) ?path =
            (Inr ?info, log (CacheGetPath ?path) (snd (resolve e w ?path)))"
      unfolding snd_res by (rule resolve_hit[OF nontrivial])
    then show "fst (resolve e2 (snd (resolve e w ?path)) ?path) = Inr ?info \<and>
            added (snd (resolve e w ?path)) (snd (resolve e2 (snd (resolve e w ?path)) ?path)) =
               [CacheGetPath ?path]"
      by simp
  qed
qed

theorem resolve_lookup_counts_witness:
  "''A'' \<noteq> [] \<and> CHR ''/'' \<notin> set ''A'' \<and> ''B'' \<noteq> [] \<and> CHR ''/'' \<notin> set ''B'' \<and>
   cache_data fresh_world = Dict empty_cache \<and>
   (case paths empty_cache of None \<Rightarrow> None | Some m \<Rightarrow> m ''/A/B'') = None \<and>
   remote_find ab_env ''root'' ''A'' = FindFiles ((''idA'', ''A'') # []) \<and>
   remote_find ab_env ''idA'' ''B'' = FindFiles ((''idB'', ''B'') # []) \<and>
   disk ab_env (disk_writes fresh_world) = Written \<and>
   fst (resolve ab_env fresh_world ''/A/B'') =
     Inr \<lparr>pi_id = ''idB'', pi_name = ''B'', pi_path = ''/A/B''\<rparr> \<and>
   remote_lookups (added fresh_world (snd (resolve ab_env fresh_world ''/A/B''))) =
     [(''root'', ''A''), (''idA'', ''B'')] \<and>
   remote_lookups
     (added (snd (resolve ab_env fresh_world ''/A/B''))
        (snd (resolve still_env (snd (resolve ab_env fresh_world ''/A/B'')) ''/A/B''))) = []"
  using resolve_lookup_counts
          [of ab_env fresh_world "''A''" "''B''" empty_cache "''idA''" "''A''" "[]"
              "''idB''" "''B''" "[]"]
  by (simp add: fresh_world_def empty_cache_def ab_env_def)

lemma remote_lookups_none [simp]:
  "remote_lookups [CacheGetPath p] = []"
  "remote_lookups [CacheGetPath p, CacheSetPath q] = []"
  by simp_all

text \<open>
  Claim C10. For a path of two or more slashes and nothing else, the split gives no
  segment. \<^verbatim>\<open>resolve\<close> then makes no remote lookup but, unlike for \<open>/\<close>, it does look
  the path up in the cache. When the cache holds no entry for it and the cache file can be
  written, \<^verbatim>\<open>resolve\<close> returns the root identifier (with the path string as given), calls
  \<^verbatim>\<open>set_path\<close>, and the cache then holds an entry for this very string of slashes. A
  second \<^verbatim>\<open>resolve\<close> answers from that entry.
\<close>

theorem resolve_only_slashes:
  "2 \<le> n \<longrightarrow>
     path_parts (replicate n CHR ''/'') = [] \<and>
     remote_lookups (added w (snd (resolve e w (replicate n CHR ''/'')))) = [] \<and>
     CacheGetPath (replicate n CHR ''/'') \<in> set (added w (snd (resolve e w (replicate n CHR ''/'')))) \<and>
     (cache_data w = Dict c \<and>
      (case paths c of None \<Rightarrow> None | Some m \<Rightarrow> m (replicate n CHR ''/'')) = None \<and>
      disk e (disk_writes w) = Written \<longrightarrow>
        fst (resolve e w (replicate n CHR ''/'')) =
          Inr \<lparr>pi_id = ''root'', pi_name = ''My Drive'', pi_path = replicate n CHR ''/''\<rparr> \<and>
        added w (snd (resolve e w (replicate n CHR ''/''))) =
          [CacheGetPath (replicate n CHR ''/''), CacheSetPath (replicate n CHR ''/'')] \<and>
        cache_data (snd (resolve e w (replicate n CHR ''/''))) =
          Dict (c\<lparr>paths := Some ((case paths c of None \<Rightarrow> Map.empty | Some m \<Rightarrow> m)
            (replicate n CHR ''/'' \<mapsto>
               \<lparr>pe_id = ''root'', pe_name = ''My Drive'',
                pe_timestamp = clock e (clock_reads w)\<rparr>))\<rparr>) \<and>
        cache_file (snd (resolve e w (replicate n CHR ''/''))) =
          Document (cache_data (snd (resolve e w (replicate n CHR ''/'')))) \<and>
        (\<forall>e2. fst (resolve e2 (snd (resolve e w (replicate n CHR ''/''))) (replicate n CHR ''/'')) =
                 Inr \<lparr>pi_id = ''root'', pi_name = ''My Drive'', pi_path = replicate n CHR ''/''\<rparr>))"
proof (intro impI conjI)
  let ?path = "replicate n CHR ''/''"
  let ?info = "\<lparr>pi_id = ''root'', pi_name = ''My Drive'', pi_path = ?path\<rparr>"
  let ?w0 = "log (CacheGetPath ?path) w"
  assume n: "2 \<le> n"
  have "length ?path \<noteq> length ([] :: string)" "length ?path \<noteq> length ''/''"
    using n by simp_all
  then have nontrivial: "?path \<noteq> []" "?path \<noteq> ''/''"
    by fastforce+
  show parts: "path_parts ?path = []" by (rule path_parts_slashes)
  from resolve_without_segments[OF nontrivial parts, of w e]
  show "remote_lookups (added w (snd (resolve e w ?path))) = []"
    and "CacheGetPath ?path \<in> set (added w (snd (resolve e w ?path)))"
    by auto
  assume h: "cache_data w = Dict c \<and>
      (case paths c of None \<Rightarrow> None | Some m \<Rightarrow> m ?path) = None \<and>
      disk e (disk_writes w) = Written"
  have walked: "walk e ?path ?w0 (''root'', ''My Drive'') (path_parts ?path) =
                  (Inr (''root'', ''My Drive''), ?w0)"
    unfolding parts by simp
  have res: "resolve e w ?path =
           (case set_path e ?w0 ?path ?info of
              (Inl err, w3) \<Rightarrow> (Inl err, w3)
            | (Inr u, w3) \<Rightarrow> (Inr ?info, w3))"
    using nontrivial h walked by (intro resolve_cold_success[where c = c]) simp_all
  have d: "cache_data ?w0 = Dict c" "disk e (disk_writes ?w0) = Written"
    using h by simp_all
  note sp = set_path_written[OF d, of ?path ?info]
  have fst_res: "fst (resolve e w ?path) = Inr ?info"
    and snd_res: "snd (resolve e w ?path) = snd (set_path e ?w0 ?path ?info)"
    unfolding res sp by simp_all
  show "fst (resolve e w ?path) = Inr ?info" by (rule fst_res)
  have "trace (snd (resolve e w ?path)) = trace w @ [CacheGetPath ?path, CacheSetPath ?path]"
    unfolding snd_res by simp
  then show "added w (snd (resolve e w ?path)) = [CacheGetPath ?path, CacheSetPath ?path]"
    by (rule added_append)
  show "cache_data (snd (resolve e w ?path)) =
          Dict (c\<lparr>paths := Some ((case paths c of None \<Rightarrow> Map.empty | Some m \<Rightarrow> m)
            (?path \<mapsto> \<lparr>pe_id = ''root'', pe_name = ''My Drive'',
                         pe_timestamp = clock e (clock_reads w)\<rparr>))\<rparr>)"
    unfolding snd_res sp by simp
  show "cache_file (snd (resolve e w ?path)) = Document (cache_data (snd (resolve e w ?path)))"
    unfolding snd_res sp by simp
  show "\<forall>e2. fst (resolve e2 (snd (resolve e w ?path)) ?path) = Inr ?info"
  proof
    fix e2
    have "get_path (snd (set_path e ?w0 ?path ?info)) ?path =
            (Inr (Some ?info), log (CacheGetPath ?path) (snd (set_path e ?w0 ?path ?info)))"
      by (intro get_path_after_set_path[OF d]) simp_all
    then have "resolve e2 (snd (resolve e w ?path)) ?path =
            (Inr ?info, log (CacheGetPath ?path) (snd (resolve e w ?path)))"
      unfolding snd_res by (rule resolve_hit[OF nontrivial])
    then show "fst (resolve e2 (snd (resolve e w ?path)) ?path) = Inr ?info" by simp
  qed
qed

theorem resolve_only_slashes_witness:
  "(2 :: nat) \<le> 2 \<and> replicate 2 CHR ''/'' = ''//'' \<and>
   cache_data fresh_world = Dict empty_cache \<and>
   (case paths empty_cache of None \<Rightarrow> None | Some m \<Rightarrow> m ''//'') = None \<and>
   disk still_env (disk_writes fresh_world) = Written \<and>
   path_parts ''//'' = [] \<and>
   fst (resolve still_env fresh_world ''//'') =
     Inr \<lparr>pi_id = ''root'', pi_name = ''My Drive'', pi_path = ''//''\<rparr> \<and>
   added fresh_world (snd (resolve still_env fresh_world ''//'')) =
     [CacheGetPath ''//'', CacheSetPath ''//''] \<and>
   cache_data (snd (resolve still_env fresh_world ''//'')) =
     Dict (empty_cache\<lparr>paths := Some [''//'' \<mapsto>
        \<lparr>pe_id = ''root'', pe_name = ''My Drive'', pe_timestamp = 1000\<rparr>]\<rparr>)"
proof -
  have two: "replicate 2 CHR ''/'' = ''//''" by (simp add: numeral_2_eq_2)
  show ?thesis
    using resolve_only_slashes [of 2 fresh_world still_env empty_cache]
    unfolding two
    by (simp add: fresh_world_def empty_cache_def still_env_def)
qed

end
